theory Spec2Isabelle
  imports Main "HOL-Library.Sublist" "HOL-Library.AList"
begin

section \<open>Data model (types.py)\<close>

text \<open>
  Python text is modelled as \<^typ>\<open>string\<close>. The configuration records are
  \<^verbatim>\<open>TypedDict\<close>s read with \<^verbatim>\<open>.get\<close>, so every key the code reads may be absent:
  such a field is an option, \<open>None\<close> standing for the absent key. A dictionary whose
  iteration order matters is an association list in insertion order.
\<close>

record RepositoryConfig =
  endpoint :: "string option"
  env_vars :: "string list option"
  forget_arguments :: "string option"

record AgentConfig =
  install_location :: "string option"
  backup_root :: "string option"
  to_backup :: "string list option"
  repositories :: "(string \<times> RepositoryConfig) list option"
  pre_command :: "string list option"
  post_command :: "string list option"

datatype error = KeyError string | ValueError string | RuntimeError string

text \<open>\<^verbatim>\<open>d.get(key, default)\<close>.\<close>

definition get_default :: "'a option \<Rightarrow> 'a \<Rightarrow> 'a" where
  "get_default v d = (case v of None \<Rightarrow> d | Some x \<Rightarrow> x)"

text \<open>An optional text inside an f-string: \<^verbatim>\<open>None\<close> is formatted as the word None.\<close>

definition fmt :: "string option \<Rightarrow> string" where
  "fmt v = (case v of None \<Rightarrow> ''None'' | Some s \<Rightarrow> s)"

definition get_install_location :: "AgentConfig \<Rightarrow> string" where
  "get_install_location agent = get_default (install_location agent) ''/opt/multi-restic''"

definition get_repositories :: "AgentConfig \<Rightarrow> (string \<times> RepositoryConfig) list" where
  "get_repositories agent = get_default (repositories agent) []"

section \<open>String primitives\<close>

text \<open>\<^verbatim>\<open>s.split(sep)\<close> for a one-character separator: never empty, one more piece than
  there are separators.\<close>

fun str_split :: "char \<Rightarrow> string \<Rightarrow> string list" where
  "str_split sep [] = [[]]"
| "str_split sep (c # cs) =
     (if c = sep then [] # str_split sep cs
      else (case str_split sep cs of
              [] \<Rightarrow> [[c]]
            | piece # pieces \<Rightarrow> (c # piece) # pieces))"

text \<open>\<^verbatim>\<open>sep.join(xs)\<close>.\<close>

fun str_join :: "string \<Rightarrow> string list \<Rightarrow> string" where
  "str_join sep [] = []"
| "str_join sep [x] = x"
| "str_join sep (x # y # ys) = x @ sep @ str_join sep (y # ys)"

section \<open>Secret files (generate\_script.py, generate\_env\_files)\<close>

text \<open>
  \<^verbatim>\<open>dotenv_values()\<close> is the external secret source: a dictionary from names to
  optional texts (a name written without a value maps to \<^verbatim>\<open>None\<close>). Subscripting it
  with a missing name raises \<^verbatim>\<open>KeyError\<close>.
\<close>

type_synonym env_source = "string \<rightharpoonup> string option"

definition env_lookup :: "env_source \<Rightarrow> string \<Rightarrow> error + string option" where
  "env_lookup env_values k = (case env_values k of None \<Rightarrow> Inl (KeyError k) | Some v \<Rightarrow> Inr v)"

text \<open>The body of the inner loop: the text one directive appends to the file, or the
  exception it raises (\<open>pfx\<close> is the source's \<^verbatim>\<open>prefix\<close>). The star pattern
  \<^verbatim>\<open>(prefix, *rest)\<close> needs at least one piece.\<close>

definition env_var_text :: "env_source \<Rightarrow> string \<Rightarrow> error + string" where
  "env_var_text env_values env_var =
     (case str_split CHR '':'' env_var of
        [] \<Rightarrow> Inl (ValueError ''not enough values to unpack'')
      | pfx # rest \<Rightarrow>
          if pfx = ''plain'' then
            (let val = str_join '':'' rest in Inr (''export '' @ val @ ''\<newline>''))
          else if pfx = ''env'' then
            (if length rest = 1 then
               (case env_lookup env_values (rest ! 0) of
                  Inl e \<Rightarrow> Inl e
                | Inr v \<Rightarrow> Inr (''export '' @ rest ! 0 @ ''='' @ fmt v @ ''\<newline>''))
             else if length rest = 2 then
               (case env_lookup env_values (rest ! 0) of
                  Inl e \<Rightarrow> Inl e
                | Inr v \<Rightarrow> Inr (''export '' @ rest ! 1 @ ''='' @ fmt v @ ''\<newline>''))
             else Inr [])
          else Inr [])"

text \<open>The inner loop over \<^verbatim>\<open>repo.get("env_vars", [])\<close>, appending to the file's text.\<close>

fun env_vars_loop :: "env_source \<Rightarrow> string list \<Rightarrow> string \<Rightarrow> error + string" where
  "env_vars_loop env_values [] content = Inr content"
| "env_vars_loop env_values (env_var # others) content =
     (case env_var_text env_values env_var of
        Inl e \<Rightarrow> Inl e
      | Inr t \<Rightarrow> env_vars_loop env_values others (content @ t))"

definition env_file_header :: "string \<Rightarrow> RepositoryConfig \<Rightarrow> string" where
  "env_file_header repo_name repo =
     ''# Environment variables for repository '' @ repo_name @ ''\<newline>''
     @ ''export RESTIC_REPOSITORY='' @ fmt (endpoint repo) @ ''\<newline>''"

text \<open>The outer loop over the repositories; \<^verbatim>\<open>env_files[repo_name] = ...\<close> is the
  dictionary update, which keeps the position of a key already present.\<close>

fun repositories_loop ::
  "env_source \<Rightarrow> (string \<times> RepositoryConfig) list \<Rightarrow> (string \<times> string) list
     \<Rightarrow> error + (string \<times> string) list" where
  "repositories_loop env_values [] env_files = Inr env_files"
| "repositories_loop env_values ((repo_name, repo) # others) env_files =
     (case env_vars_loop env_values (get_default (env_vars repo) [])
             (env_file_header repo_name repo) of
        Inl e \<Rightarrow> Inl e
      | Inr content \<Rightarrow>
          repositories_loop env_values others (AList.update repo_name content env_files))"

definition generate_env_files :: "env_source \<Rightarrow> AgentConfig \<Rightarrow> error + (string \<times> string) list" where
  "generate_env_files env_values agent =
     repositories_loop env_values (get_repositories agent) []"

section \<open>The directive forms of the specification\<close>

text \<open>
  The three forms of directive the specification names, with the text of each form and the
  export line the specification gives it. \<open>directive_resolves\<close> says that the
  directive is of its form (the names of an \<^verbatim>\<open>env:\<close> directive hold no colon) and that
  its source name is a key of the secret source.
\<close>

datatype directive = Plain string | Env string | EnvAs string string

fun directive_text :: "directive \<Rightarrow> string" where
  "directive_text (Plain lit) = ''plain:'' @ lit"
| "directive_text (Env src) = ''env:'' @ src"
| "directive_text (EnvAs src dst) = ''env:'' @ src @ '':'' @ dst"

fun directive_resolves :: "env_source \<Rightarrow> directive \<Rightarrow> bool" where
  "directive_resolves env_values (Plain lit) = True"
| "directive_resolves env_values (Env src) = (CHR '':'' \<notin> set src \<and> env_values src \<noteq> None)"
| "directive_resolves env_values (EnvAs src dst) =
     (CHR '':'' \<notin> set src \<and> CHR '':'' \<notin> set dst \<and> env_values src \<noteq> None)"

definition resolved :: "env_source \<Rightarrow> string \<Rightarrow> string" where
  "resolved env_values src = (case env_values src of None \<Rightarrow> [] | Some v \<Rightarrow> fmt v)"

fun spec_export_line :: "env_source \<Rightarrow> directive \<Rightarrow> string" where
  "spec_export_line env_values (Plain lit) = ''export '' @ lit @ ''\<newline>''"
| "spec_export_line env_values (Env src) =
     ''export '' @ src @ ''='' @ resolved env_values src @ ''\<newline>''"
| "spec_export_line env_values (EnvAs src dst) =
     ''export '' @ dst @ ''='' @ resolved env_values src @ ''\<newline>''"

text \<open>
  The directives the generator passes over: the first colon-separated piece is neither
  \<^verbatim>\<open>plain\<close> nor \<^verbatim>\<open>env\<close>, or it is \<^verbatim>\<open>env\<close> followed by more than two pieces.
\<close>

definition silently_skipped :: "string \<Rightarrow> bool" where
  "silently_skipped env_var =
     (case str_split CHR '':'' env_var of
        [] \<Rightarrow> False
      | pfx # rest \<Rightarrow> (pfx \<noteq> ''plain'' \<and> pfx \<noteq> ''env'') \<or> (pfx = ''env'' \<and> length rest > 2))"

text \<open>
  An \<^verbatim>\<open>env:SRC\<close> or \<^verbatim>\<open>env:SRC:DST\<close> directive whose \<open>SRC\<close> is not a key of the secret
  source.
\<close>

definition unresolved_env :: "env_source \<Rightarrow> string \<Rightarrow> bool" where
  "unresolved_env env_values env_var =
     (case str_split CHR '':'' env_var of
        [pfx, src] \<Rightarrow> pfx = ''env'' \<and> env_values src = None
      | [pfx, src, dst] \<Rightarrow> pfx = ''env'' \<and> env_values src = None
      | _ \<Rightarrow> False)"

section \<open>The backup script (generate\_script.py)\<close>

text \<open>Truth value of an optional text or list in a condition: absent and empty are false.\<close>

definition truthy :: "'a list option \<Rightarrow> bool" where
  "truthy v = (case v of None \<Rightarrow> False | Some xs \<Rightarrow> xs \<noteq> [])"

text \<open>
  \<^verbatim>\<open>generate_repository_script\<close>: the f-string, then the optional \<^verbatim>\<open>restic forget\<close>
  line, then the end marker.
\<close>

definition generate_repository_script :: "AgentConfig \<Rightarrow> string \<Rightarrow> RepositoryConfig \<Rightarrow> string" where
  "generate_repository_script agent repo_name repo =
     (let script = ''# START '' @ repo_name @ ''\<newline>''
            @ ''source '' @ get_install_location agent @ ''/.env.'' @ repo_name @ ''\<newline>''
            @ ''\<newline>''
            @ ''if ! restic cat config >/dev/null 2>&1; then\<newline>''
            @ ''    # Restic automatically does `mkdir -p` if necessary\<newline>''
            @ ''    restic init\<newline>''
            @ ''fi\<newline>''
            @ ''\<newline>''
            @ ''restic backup '' @ str_join '' '' (get_default (to_backup agent) []) @ ''\<newline>'';
          script = (if truthy (forget_arguments repo)
                    then script @ ''restic forget '' @ fmt (forget_arguments repo) @ '' --prune\<newline>''
                    else script);
          script = script @ ''# END '' @ repo_name @ ''\<newline>''
      in script)"

text \<open>
  \<^verbatim>\<open>string.Template.substitute\<close> with the default pattern: \<^verbatim>\<open>$$\<close> is an escaped
  dollar, \<^verbatim>\<open>$name\<close> and \<^verbatim>\<open>${name}\<close> are placeholders (an ASCII identifier), any other
  dollar raises \<^verbatim>\<open>ValueError\<close>, and a placeholder without a value raises
  \<^verbatim>\<open>KeyError\<close>. The text is scanned from the left and the first failure is raised.
\<close>

definition ident_start :: "char \<Rightarrow> bool" where
  "ident_start c = (c \<in> set ''_abcdefghijklmnopqrstuvwxyzABCDEFGHIJKLMNOPQRSTUVWXYZ'')"

definition ident_char :: "char \<Rightarrow> bool" where
  "ident_char c = (ident_start c \<or> c \<in> set ''0123456789'')"

definition emit :: "string \<Rightarrow> error + string \<Rightarrow> error + string" where
  "emit s r = (case r of Inl e \<Rightarrow> Inl e | Inr t \<Rightarrow> Inr (s @ t))"

function substitute :: "(string \<times> string) list \<Rightarrow> string \<Rightarrow> error + string" where
  "substitute kws [] = Inr []"
| "substitute kws (c # cs) =
     (if c \<noteq> CHR ''$'' then emit [c] (substitute kws cs)
      else (case cs of
              [] \<Rightarrow> Inl (ValueError ''Invalid placeholder in string'')
            | d # ds \<Rightarrow>
                if d = CHR ''$'' then emit ''$'' (substitute kws ds)
                else if ident_start d then
                  (case map_of kws (takeWhile ident_char cs) of
                     None \<Rightarrow> Inl (KeyError (takeWhile ident_char cs))
                   | Some v \<Rightarrow> emit v (substitute kws (dropWhile ident_char cs)))
                else if d = CHR ''{'' \<and> takeWhile ident_char ds \<noteq> []
                        \<and> ident_start (hd (takeWhile ident_char ds))
                        \<and> take 1 (dropWhile ident_char ds) = ''}'' then
                  (case map_of kws (takeWhile ident_char ds) of
                     None \<Rightarrow> Inl (KeyError (takeWhile ident_char ds))
                   | Some v \<Rightarrow> emit v (substitute kws (drop 1 (dropWhile ident_char ds))))
                else Inl (ValueError ''Invalid placeholder in string'')))"
  by pat_completeness auto
termination
proof (relation "measure (\<lambda>(kws, s). length s)")
  show "wf (measure (\<lambda>(kws, s). length s))" by simp
next
  fix kws :: "(string \<times> string) list" and c :: char and cs :: string
  show "((kws, cs), kws, c # cs) \<in> measure (\<lambda>(kws, s). length s)" by simp
next
  fix kws :: "(string \<times> string) list" and c d :: char and cs ds :: string
  assume "cs = d # ds"
  then show "((kws, ds), kws, c # cs) \<in> measure (\<lambda>(kws, s). length s)" by simp
next
  fix kws :: "(string \<times> string) list" and c :: char and cs :: string
  have "length (dropWhile ident_char cs) \<le> length cs" by (rule length_dropWhile_le)
  then show "((kws, dropWhile ident_char cs), kws, c # cs) \<in> measure (\<lambda>(kws, s). length s)"
    by simp
next
  fix kws :: "(string \<times> string) list" and c d :: char and cs ds :: string
  assume "cs = d # ds"
  moreover have "length (dropWhile ident_char ds) \<le> length ds" by (rule length_dropWhile_le)
  ultimately show "((kws, drop 1 (dropWhile ident_char ds)), kws, c # cs)
      \<in> measure (\<lambda>(kws, s). length s)"
    by simp
qed

definition script_template :: string where
  "script_template =
     ''#!/bin/bash -e\<newline>''
     @ ''# Generated on ${date} by multi-restic\<newline>''
     @ ''\<newline>''
     @ ''export PATH=${install_location}:$$PATH\<newline>''
     @ ''cd ${backup_root}\<newline>''
     @ ''\<newline>''
     @ ''# Pre-backup commands\<newline>''
     @ ''${pre_commands}\<newline>''
     @ ''\<newline>''
     @ ''${repository_scripts}\<newline>''
     @ ''# Post-backup commands\<newline>''
     @ ''${post_commands}\<newline>''"

text \<open>\<^verbatim>\<open>generate_script\<close>; \<open>now\<close> is the text of \<^verbatim>\<open>datetime.now().isoformat()\<close>.\<close>

definition generate_script :: "string \<Rightarrow> AgentConfig \<Rightarrow> error + string" where
  "generate_script now agent =
     substitute
       [(''date'', now),
        (''install_location'', get_install_location agent),
        (''backup_root'', fmt (backup_root agent)),
        (''pre_commands'',
           if truthy (pre_command agent)
           then str_join '' && '' (get_default (pre_command agent) []) else []),
        (''repository_scripts'',
           concat (map (\<lambda>(repo_name, repo). generate_repository_script agent repo_name repo)
                     (get_repositories agent))),
        (''post_commands'',
           if truthy (post_command agent)
           then str_join '' && '' (get_default (post_command agent) []) else [])]
       script_template"

text \<open>
  The two generator calls of \<^verbatim>\<open>install\<close> (the secret files first, then the script); an
  exception of either leaves the workflow.
\<close>

definition generate_artifacts ::
  "env_source \<Rightarrow> string \<Rightarrow> AgentConfig \<Rightarrow> error + ((string \<times> string) list \<times> string)" where
  "generate_artifacts env_values now agent =
     (case generate_env_files env_values agent of
        Inl e \<Rightarrow> Inl e
      | Inr env_files \<Rightarrow>
          (case generate_script now agent of
             Inl e \<Rightarrow> Inl e
           | Inr backup_script \<Rightarrow> Inr (env_files, backup_script)))"

section \<open>The parts of the script the specification names\<close>

text \<open>
  The text before the repository blocks, one repository block, and the text after them,
  in the specification's terms: a block is its start marker line, the steps that load the
  secret file and initialise the repository when needed, the backup step, the retention
  step when there is one, and the end marker line.
\<close>

definition start_marker :: "string \<Rightarrow> string" where
  "start_marker repo_name = ''# START '' @ repo_name @ ''\<newline>''"

definition end_marker :: "string \<Rightarrow> string" where
  "end_marker repo_name = ''# END '' @ repo_name @ ''\<newline>''"

definition prepare_steps :: "AgentConfig \<Rightarrow> string \<Rightarrow> string" where
  "prepare_steps agent repo_name =
     ''source '' @ get_install_location agent @ ''/.env.'' @ repo_name @ ''\<newline>''
     @ ''\<newline>''
     @ ''if ! restic cat config >/dev/null 2>&1; then\<newline>''
     @ ''    # Restic automatically does `mkdir -p` if necessary\<newline>''
     @ ''    restic init\<newline>''
     @ ''fi\<newline>''
     @ ''\<newline>''"

definition backup_step :: "AgentConfig \<Rightarrow> string" where
  "backup_step agent =
     ''restic backup '' @ str_join '' '' (get_default (to_backup agent) []) @ ''\<newline>''"

definition retention_step :: "string \<Rightarrow> string" where
  "retention_step args = ''restic forget '' @ args @ '' --prune\<newline>''"

definition spec_repository_block :: "AgentConfig \<Rightarrow> string \<Rightarrow> RepositoryConfig \<Rightarrow> string" where
  "spec_repository_block agent repo_name repo =
     start_marker repo_name
     @ prepare_steps agent repo_name
     @ backup_step agent
     @ (case forget_arguments repo of
          None \<Rightarrow> []
        | Some args \<Rightarrow> if args = [] then [] else retention_step args)
     @ end_marker repo_name"

definition script_prologue :: "string \<Rightarrow> AgentConfig \<Rightarrow> string" where
  "script_prologue now agent =
     ''#!/bin/bash -e\<newline>''
     @ ''# Generated on '' @ now @ '' by multi-restic\<newline>''
     @ ''\<newline>''
     @ ''export PATH='' @ get_install_location agent @ '':$PATH\<newline>''
     @ ''cd '' @ fmt (backup_root agent) @ ''\<newline>''
     @ ''\<newline>''
     @ ''# Pre-backup commands\<newline>''
     @ (case pre_command agent of None \<Rightarrow> [] | Some cmds \<Rightarrow> str_join '' && '' cmds) @ ''\<newline>''
     @ ''\<newline>''"

definition script_epilogue :: "AgentConfig \<Rightarrow> string" where
  "script_epilogue agent =
     ''\<newline>''
     @ ''# Post-backup commands\<newline>''
     @ (case post_command agent of None \<Rightarrow> [] | Some cmds \<Rightarrow> str_join '' && '' cmds) @ ''\<newline>''"

text \<open>The part of a configuration that is not input of the secret files: the repositories
  keep their names, order and \<^verbatim>\<open>forget_arguments\<close>, and lose endpoint and directives.\<close>

definition non_secret_part :: "AgentConfig \<Rightarrow> AgentConfig" where
  "non_secret_part agent =
     agent\<lparr>repositories :=
       map_option (map (\<lambda>(repo_name, repo). (repo_name, repo\<lparr>endpoint := None, env_vars := None\<rparr>)))
         (repositories agent)\<rparr>"

section \<open>The cron scheduler (schedule.py, CronScheduler)\<close>

text \<open>
  Character classes of Python's \<^verbatim>\<open>str\<close> on the code points below 256, which are the
  characters of \<^typ>\<open>string\<close>: \<^verbatim>\<open>str.strip()\<close> removes the characters for which
  \<^verbatim>\<open>isspace\<close> holds, \<^verbatim>\<open>str.splitlines()\<close> breaks at the line boundaries. (Beyond that
  range Python knows further spaces and the two boundaries U+2028 and U+2029.)
\<close>

definition is_space :: "char \<Rightarrow> bool" where
  "is_space c = (c \<in> {CHR 0x09, CHR 0x0A, CHR 0x0B, CHR 0x0C, CHR 0x0D, CHR 0x1C, CHR 0x1D,
                        CHR 0x1E, CHR 0x1F, CHR 0x20, CHR 0x85, CHR 0xA0})"

definition is_linebreak :: "char \<Rightarrow> bool" where
  "is_linebreak c = (c \<in> {CHR 0x0A, CHR 0x0B, CHR 0x0C, CHR 0x0D, CHR 0x1C, CHR 0x1D,
                            CHR 0x1E, CHR 0x85})"

definition lstrip :: "string \<Rightarrow> string" where
  "lstrip s = dropWhile is_space s"

definition rstrip :: "string \<Rightarrow> string" where
  "rstrip s = rev (dropWhile is_space (rev s))"

definition strip :: "string \<Rightarrow> string" where
  "strip s = lstrip (rstrip s)"

text \<open>
  \<^verbatim>\<open>s.splitlines()\<close>: \<open>cur\<close> is the line read so far. A carriage return followed by a
  line feed is one boundary; the text after the last boundary is a line unless it is empty.
\<close>

fun scan_lines :: "string \<Rightarrow> string \<Rightarrow> string list" where
  "scan_lines cur [] = (if cur = [] then [] else [cur])"
| "scan_lines cur (c # cs) =
     (if c = CHR 0x0D \<and> take 1 cs = [CHR 0x0A] then cur # scan_lines [] (drop 1 cs)
      else if is_linebreak c then cur # scan_lines [] cs
      else scan_lines (cur @ [c]) cs)"

definition splitlines :: "string \<Rightarrow> string list" where
  "splitlines s = scan_lines [] s"

text \<open>\<^verbatim>\<open>pat in s\<close> on texts.\<close>

fun contains :: "string \<Rightarrow> string \<Rightarrow> bool" where
  "contains pat [] = (pat = [])"
| "contains pat (c # cs) = (prefix pat (c # cs) \<or> contains pat cs)"


text \<open>
  The update command of both operations: the text is pasted between double quotes as it
  stands.
\<close>

definition update_command :: "string \<Rightarrow> string" where
  "update_command text = ''echo '' @ [CHR 0x22] @ text @ [CHR 0x22] @ '' | crontab -''"


text \<open>The loop of \<^verbatim>\<open>remove_schedule\<close> over the lines, with its two variables.\<close>

definition is_marker :: "string \<Rightarrow> bool" where
  "is_marker line = contains ''# -- multi-restic --'' (strip line)"

fun remove_loop :: "string list \<Rightarrow> bool \<Rightarrow> string \<Rightarrow> string" where
  "remove_loop [] delete_next new_crontab = new_crontab"
| "remove_loop (line # lines) delete_next new_crontab =
     (if is_marker line then remove_loop lines True new_crontab
      else if delete_next then remove_loop lines False new_crontab
      else remove_loop lines delete_next (new_crontab @ line @ ''\<newline>''))"

definition remove_schedule :: "string \<Rightarrow> nat \<Rightarrow> error + string" where
  "remove_schedule crontab_contents exit_code =
     (let new_crontab = remove_loop (splitlines crontab_contents) False []
      in if exit_code \<noteq> 0 then Inl (RuntimeError ''Failed to update crontab'')
         else Inr (update_command (rstrip new_crontab)))"

text \<open>Lines written back one per line, as the loop does.\<close>

definition unlines :: "string list \<Rightarrow> string" where
  "unlines ls = concat (map (\<lambda>l. l @ ''\<newline>'') ls)"

section \<open>The host's side of the update command\<close>

text \<open>
  What a POSIX shell on the host makes of \<^verbatim>\<open>echo "text" | crontab -\<close>. Inside double
  quotes the shell interprets the double quote, the dollar sign, the backquote and the
  backslash, and \<^verbatim>\<open>echo\<close> takes a lone word made of a dash and the letters n, e, E as
  options. For any other text \<^verbatim>\<open>echo\<close> prints the text and a newline, and that is the
  crontab of the host once the command has exited with status 0. For a text of the first
  kind the crontab depends on the expansion the shell performs, which is not modelled:
  the result is \<open>None\<close>.
\<close>

definition shell_special :: "char \<Rightarrow> bool" where
  "shell_special c = (c \<in> {CHR 0x22, CHR ''$'', CHR 0x60, CHR 0x5C})"

definition echo_option :: "string \<Rightarrow> bool" where
  "echo_option text =
     (case text of
        [] \<Rightarrow> False
      | d # opts \<Rightarrow> d = CHR ''-'' \<and> opts \<noteq> [] \<and> (\<forall>opt \<in> set opts. opt \<in> set ''neE''))"

definition shell_verbatim :: "string \<Rightarrow> bool" where
  "shell_verbatim text = ((\<forall>c \<in> set text. \<not> shell_special c) \<and> \<not> echo_option text)"

definition installed_crontab :: "string \<Rightarrow> string option" where
  "installed_crontab text = (if shell_verbatim text then Some (text @ ''\<newline>'') else None)"

section \<open>The Check workflow (\_\_init\_\_.py, check)\<close>

text \<open>
  A session is the host seen through \<^verbatim>\<open>exec_command\<close>: the reply to the command sent as
  the \<open>n\<close>-th of the session is its exit status with the decoded standard output, or
  \<open>None\<close> when the call raises (\<open>location\<close> below is the source's
  \<^verbatim>\<open>install_location\<close>). The workflow is observed through the commands it sends
  and the messages it logs, in order.
\<close>

type_synonym reply = "nat \<times> string"

type_synonym client = "nat \<Rightarrow> string \<Rightarrow> reply option"

datatype event =
    Exec string
  | CheckingAgents
  | Connected string
  | AlreadyInstalled
  | NotInstalled string
  | CrontabAvailable
  | CrontabUnavailable
  | ResticInPath string
  | ResticInInstallFolder string
  | ResticUnavailable string
  | BackupRootExists string
  | BackupRootMissing string
  | PathExists string
  | PathMissing string
  | FailedToConnect string

text \<open>How a piece of the loop body ends: it runs on, it reaches \<^verbatim>\<open>continue\<close>, or it raises.\<close>

datatype flow = Proceed | Continue | Raised

type_synonym step = "nat \<Rightarrow> event list \<times> flow"

fun is_exec :: "event \<Rightarrow> bool" where
  "is_exec (Exec cmd) = True"
| "is_exec e = False"

definition execs :: "event list \<Rightarrow> nat" where
  "execs evs = length (filter is_exec evs)"

definition say :: "event \<Rightarrow> flow \<Rightarrow> step" where
  "say e fl n = ([e], fl)"

text \<open>Send a command; the continuation sees the reply.\<close>

definition probe :: "client \<Rightarrow> string \<Rightarrow> (reply \<Rightarrow> step) \<Rightarrow> step" where
  "probe client cmd k n =
     (case client n cmd of
        None \<Rightarrow> ([Exec cmd], Raised)
      | Some r \<Rightarrow> (case k r (Suc n) of (evs, fl) \<Rightarrow> (Exec cmd # evs, fl)))"

text \<open>Sequential composition: the second piece runs when the first runs on.\<close>

definition andthen :: "step \<Rightarrow> step \<Rightarrow> step" where
  "andthen a b n =
     (case a n of
        (evs, fl) \<Rightarrow>
          if fl = Proceed
          then (case b (n + execs evs) of (evs', fl') \<Rightarrow> (evs @ evs', fl'))
          else (evs, fl))"

definition check_installed :: "client \<Rightarrow> string \<Rightarrow> string \<Rightarrow> step" where
  "check_installed client agent_name location =
     probe client (''ls '' @ location @ ''/backup.sh'')
       (\<lambda>(exit_code, out).
          if exit_code = 0 then say AlreadyInstalled Proceed
          else say (NotInstalled agent_name) Proceed)"

definition check_crontab :: "client \<Rightarrow> step" where
  "check_crontab client =
     probe client ''crontab -l''
       (\<lambda>(exit_code, out).
          if exit_code = 0 then say CrontabAvailable Proceed
          else say CrontabUnavailable Proceed)"

text \<open>Lines 62 to 70: both commands are \<^verbatim>\<open>{install_location}/restic version\<close>.\<close>

definition check_restic :: "client \<Rightarrow> string \<Rightarrow> step" where
  "check_restic client location =
     probe client (location @ ''/restic version'')
       (\<lambda>(exit_code, out).
          if exit_code = 0 then say (ResticInPath (strip out)) Proceed
          else probe client (location @ ''/restic version'')
                 (\<lambda>(exit_code2, out2).
                    if exit_code2 = 0 then say (ResticInInstallFolder (strip out2)) Proceed
                    else say (ResticUnavailable location) Proceed))"

definition check_backup_root :: "client \<Rightarrow> AgentConfig \<Rightarrow> step" where
  "check_backup_root client agent_data =
     probe client (''test -e '' @ fmt (backup_root agent_data))
       (\<lambda>(exit_code, out).
          if exit_code = 0 then say (BackupRootExists (fmt (backup_root agent_data))) Proceed
          else say (BackupRootMissing (fmt (backup_root agent_data))) Continue)"

fun check_paths :: "client \<Rightarrow> AgentConfig \<Rightarrow> string list \<Rightarrow> step" where
  "check_paths client agent_data [] = (\<lambda>n. ([], Proceed))"
| "check_paths client agent_data (item # items) =
     andthen
       (probe client (''test -e '' @ fmt (backup_root agent_data) @ ''/'' @ item)
          (\<lambda>(exit_code, out).
             if exit_code = 0
             then say (PathExists (fmt (backup_root agent_data) @ ''/'' @ item)) Proceed
             else say (PathMissing (fmt (backup_root agent_data) @ ''/'' @ item)) Proceed))
       (check_paths client agent_data items)"

text \<open>The body of the \<^verbatim>\<open>with\<close> block up to the restic check, and the whole body.\<close>

definition check_head :: "client \<Rightarrow> string \<Rightarrow> AgentConfig \<Rightarrow> step" where
  "check_head client agent_name agent_data =
     andthen (say (Connected agent_name) Proceed)
       (andthen (check_installed client agent_name (get_install_location agent_data))
          (andthen (check_crontab client)
             (check_restic client (get_install_location agent_data))))"

definition check_session :: "client \<Rightarrow> string \<Rightarrow> AgentConfig \<Rightarrow> step" where
  "check_session client agent_name agent_data =
     andthen (check_head client agent_name agent_data)
       (andthen (check_backup_root client agent_data)
          (check_paths client agent_data (get_default (to_backup agent_data) [])))"

text \<open>
  One turn of the loop over the agents: \<^verbatim>\<open>connect_ssh\<close> gives a session or raises, and
  \<^verbatim>\<open>except Exception\<close> logs whatever was raised inside the \<^verbatim>\<open>try\<close>.
\<close>

definition check_agent :: "client option \<Rightarrow> string \<Rightarrow> AgentConfig \<Rightarrow> event list" where
  "check_agent connection agent_name agent_data =
     (case connection of
        None \<Rightarrow> [FailedToConnect agent_name]
      | Some client \<Rightarrow>
          (case check_session client agent_name agent_data 0 of
             (evs, fl) \<Rightarrow> if fl = Raised then evs @ [FailedToConnect agent_name] else evs))"

fun check_agents ::
  "(string \<Rightarrow> AgentConfig \<Rightarrow> client option) \<Rightarrow> (string \<times> AgentConfig) list \<Rightarrow> event list" where
  "check_agents connect_ssh [] = []"
| "check_agents connect_ssh ((agent_name, agent_data) # others) =
     check_agent (connect_ssh agent_name agent_data) agent_name agent_data
     @ check_agents connect_ssh others"

definition check ::
  "(string \<Rightarrow> AgentConfig \<Rightarrow> client option) \<Rightarrow> (string \<times> AgentConfig) list \<Rightarrow> event list" where
  "check connect_ssh agents = CheckingAgents # check_agents connect_ssh agents"

section \<open>Properties of the secret-file generator\<close>

lemma str_split_not_Nil: "str_split sep s \<noteq> []"
  by (induction s) (auto split: list.splits)

lemma str_split_no_sep: "sep \<notin> set s \<Longrightarrow> str_split sep s = [s]"
  by (induction s) auto

lemma str_split_append: "sep \<notin> set p \<Longrightarrow> str_split sep (p @ sep # t) = p # str_split sep t"
  by (induction p) auto

lemma str_join_split: "str_join [sep] (str_split sep s) = s"
proof (induction s)
  case Nil
  then show ?case by simp
next
  case (Cons c s)
  obtain piece pieces where sp: "str_split sep s = piece # pieces"
    using str_split_not_Nil [of sep s] by (cases "str_split sep s") auto
  show ?case
  proof (cases "c = sep")
    case True
    with Cons sp show ?thesis by simp
  next
    case False
    with Cons sp show ?thesis by (cases pieces) auto
  qed
qed

lemma split_plain: "str_split CHR '':'' (''plain:'' @ lit) = ''plain'' # str_split CHR '':'' lit"
  using str_split_append [of "CHR '':''" "''plain''" lit] by simp

lemma split_env: "str_split CHR '':'' (''env:'' @ t) = ''env'' # str_split CHR '':'' t"
  using str_split_append [of "CHR '':''" "''env''" t] by simp

lemma env_var_text_directive:
  assumes "directive_resolves env_values d"
  shows "env_var_text env_values (directive_text d) = Inr (spec_export_line env_values d)"
proof (cases d)
  case (Plain lit)
  have sp: "str_split CHR '':'' (directive_text d) = ''plain'' # str_split CHR '':'' lit"
    using split_plain [of lit] by (simp add: Plain del: str_split.simps)
  show ?thesis
    unfolding env_var_text_def sp by (simp add: str_join_split Plain)
next
  case (Env src)
  with assms have ok: "CHR '':'' \<notin> set src" "env_values src \<noteq> None" by auto
  have sp: "str_split CHR '':'' (directive_text d) = [''env'', src]"
    using split_env [of src] ok(1) by (simp add: Env str_split_no_sep del: str_split.simps)
  show ?thesis
    unfolding env_var_text_def sp using ok(2)
    by (auto simp add: Env env_lookup_def resolved_def)
next
  case (EnvAs src dst)
  with assms have ok: "CHR '':'' \<notin> set src" "CHR '':'' \<notin> set dst" "env_values src \<noteq> None"
    by auto
  have "str_split CHR '':'' (src @ '':'' @ dst) = [src, dst]"
    using str_split_append [of "CHR '':''" src dst] ok by (simp add: str_split_no_sep)
  then have sp: "str_split CHR '':'' (directive_text d) = [''env'', src, dst]"
    using split_env [of "src @ '':'' @ dst"] by (simp add: EnvAs del: str_split.simps)
  show ?thesis
    unfolding env_var_text_def sp using ok(3)
    by (auto simp add: EnvAs env_lookup_def resolved_def)
qed

lemma env_vars_loop_directives:
  "\<forall>d \<in> set ds. directive_resolves env_values d \<Longrightarrow>
   env_vars_loop env_values (map directive_text ds) content
     = Inr (content @ concat (map (spec_export_line env_values) ds))"
  by (induction ds arbitrary: content) (simp_all add: env_var_text_directive del: directive_text.simps spec_export_line.simps)

lemma update_fresh: "k \<notin> fst ` set xs \<Longrightarrow> AList.update k v xs = xs @ [(k, v)]"
  by (induction xs) auto

lemma repositories_loop_directives:
  assumes "distinct (map fst repos)"
    and "fst ` set repos \<inter> fst ` set env_files = {}"
    and "\<forall>(n, r) \<in> set repos. env_vars r = Some (map directive_text (dirs n))
           \<and> (\<forall>d \<in> set (dirs n). directive_resolves env_values d)"
  shows "repositories_loop env_values repos env_files
     = Inr (env_files @ map (\<lambda>(n, r). (n, env_file_header n r
               @ concat (map (spec_export_line env_values) (dirs n)))) repos)"
  using assms
proof (induction repos arbitrary: env_files)
  case Nil
  then show ?case by simp
next
  case (Cons p repos)
  obtain n r where p: "p = (n, r)" by (cases p)
  from Cons.prems p have fresh: "n \<notin> fst ` set env_files" by auto
  from Cons.prems p have ev: "env_vars r = Some (map directive_text (dirs n))"
    and res: "\<forall>d \<in> set (dirs n). directive_resolves env_values d" by auto
  let ?content = "env_file_header n r @ concat (map (spec_export_line env_values) (dirs n))"
  have inner: "env_vars_loop env_values (get_default (env_vars r) []) (env_file_header n r) = Inr ?content"
    using env_vars_loop_directives [OF res] by (simp add: ev get_default_def)
  have d: "distinct (map fst repos)" using Cons.prems by simp
  have disj: "fst ` set repos \<inter> fst ` set (env_files @ [(n, ?content)]) = {}"
    using Cons.prems p by auto
  have rest: "\<forall>(n, r) \<in> set repos. env_vars r = Some (map directive_text (dirs n))
           \<and> (\<forall>d \<in> set (dirs n). directive_resolves env_values d)"
    using Cons.prems by simp
  show ?case
    using Cons.IH [OF d disj rest] by (simp add: p inner update_fresh [OF fresh])
qed


text \<open>
  Claim C6. Let every directive of every repository be of one of the three forms
  \<^verbatim>\<open>plain:LITERAL\<close>, \<^verbatim>\<open>env:SRC\<close>, \<^verbatim>\<open>env:SRC:DST\<close>, with \<open>SRC\<close> a key of the secret
  source. Then the generator returns, for each repository in declared order, the header of
  the file followed by one export line per directive in declared order: \<^verbatim>\<open>export LITERAL\<close>
  (the literal verbatim, colons included), \<^verbatim>\<open>export SRC=value\<close>, \<^verbatim>\<open>export DST=value\<close>.
\<close>

theorem generate_env_files_export_lines:
  assumes "distinct (map fst (get_repositories agent))"
    and "\<forall>(n, r) \<in> set (get_repositories agent).
           env_vars r = Some (map directive_text (dirs n))
           \<and> (\<forall>d \<in> set (dirs n). directive_resolves env_values d)"
  shows "generate_env_files env_values agent
     = Inr (map (\<lambda>(n, r). (n, env_file_header n r
               @ concat (map (spec_export_line env_values) (dirs n))))
            (get_repositories agent))"
  unfolding generate_env_files_def
  using repositories_loop_directives [OF assms(1) _ assms(2), of "[]"] by simp

theorem generate_env_files_export_lines_witness:
  "generate_env_files (Map.empty(''SRC'' \<mapsto> Some ''v''))
     \<lparr>install_location = None, backup_root = Some ''/srv'', to_backup = Some [''data''],
      repositories = Some [(''r1'',
         \<lparr>endpoint = Some ''s3:host/bucket'',
          env_vars = Some [''plain:A=B:C'', ''env:SRC'', ''env:SRC:DST''],
          forget_arguments = None\<rparr>)],
      pre_command = None, post_command = None\<rparr>
   = Inr [(''r1'',
       ''# Environment variables for repository r1\<newline>''
       @ ''export RESTIC_REPOSITORY=s3:host/bucket\<newline>''
       @ ''export A=B:C\<newline>''
       @ ''export SRC=v\<newline>''
       @ ''export DST=v\<newline>'')]"
  using generate_env_files_export_lines
    [of "\<lparr>install_location = None, backup_root = Some ''/srv'', to_backup = Some [''data''],
      repositories = Some [(''r1'',
         \<lparr>endpoint = Some ''s3:host/bucket'',
          env_vars = Some [''plain:A=B:C'', ''env:SRC'', ''env:SRC:DST''],
          forget_arguments = None\<rparr>)],
      pre_command = None, post_command = None\<rparr>"
        "\<lambda>n. [Plain ''A=B:C'', Env ''SRC'', EnvAs ''SRC'' ''DST'']"
        "Map.empty(''SRC'' \<mapsto> Some ''v'')"]
  by (simp add: get_repositories_def get_default_def env_file_header_def fmt_def resolved_def)

lemma env_var_text_skipped: "silently_skipped d \<Longrightarrow> env_var_text env_values d = Inr []"
  by (auto simp add: silently_skipped_def env_var_text_def split: list.splits)

lemma env_vars_loop_append:
  "env_vars_loop env_values (ds1 @ ds2) content
     = (case env_vars_loop env_values ds1 content of
          Inl e \<Rightarrow> Inl e
        | Inr c \<Rightarrow> env_vars_loop env_values ds2 c)"
  by (induction ds1 arbitrary: content) (auto split: sum.splits)

lemma env_vars_loop_skip:
  "silently_skipped d \<Longrightarrow>
   env_vars_loop env_values (ds1 @ d # ds2) content = env_vars_loop env_values (ds1 @ ds2) content"
  by (simp add: env_vars_loop_append env_var_text_skipped split: sum.splits)

lemma repositories_loop_append:
  "repositories_loop env_values (rs1 @ rs2) env_files
     = (case repositories_loop env_values rs1 env_files of
          Inl e \<Rightarrow> Inl e
        | Inr fs \<Rightarrow> repositories_loop env_values rs2 fs)"
  by (induction rs1 arbitrary: env_files) (auto split: sum.splits)

text \<open>
  Claim C10. A directive whose prefix is neither \<^verbatim>\<open>plain\<close> nor \<^verbatim>\<open>env\<close>, or an
  \<^verbatim>\<open>env\<close> directive with more than two pieces after the prefix, appends nothing and
  raises nothing; the generator's result, files and errors alike, is the one it gives
  for the configuration without that directive.
\<close>

theorem skipped_directive_ignored:
  assumes "silently_skipped d"
    and "repositories agent = Some (rs1 @ (n, r) # rs2)"
    and "env_vars r = Some (ds1 @ d # ds2)"
  shows "env_var_text env_values d = Inr []
     \<and> generate_env_files env_values agent
       = generate_env_files env_values
           (agent\<lparr>repositories := Some (rs1 @ (n, r\<lparr>env_vars := Some (ds1 @ ds2)\<rparr>) # rs2)\<rparr>)"
  using assms
  by (simp add: generate_env_files_def get_repositories_def get_default_def
      repositories_loop_append env_vars_loop_skip env_file_header_def env_var_text_skipped
      split: sum.splits)

theorem skipped_directive_ignored_witness:
  "generate_env_files Map.empty
     \<lparr>install_location = None, backup_root = Some ''/srv'', to_backup = Some [''data''],
      repositories = Some [(''r1'',
         \<lparr>endpoint = Some ''/mnt/repo'',
          env_vars = Some [''vault:X'', ''plain:A=1'', ''env:A:B:C''],
          forget_arguments = None\<rparr>)],
      pre_command = None, post_command = None\<rparr>
   = Inr [(''r1'',
       ''# Environment variables for repository r1\<newline>''
       @ ''export RESTIC_REPOSITORY=/mnt/repo\<newline>''
       @ ''export A=1\<newline>'')]"
  using skipped_directive_ignored
    [of "''vault:X''"
        "\<lparr>install_location = None, backup_root = Some ''/srv'', to_backup = Some [''data''],
          repositories = Some [(''r1'',
             \<lparr>endpoint = Some ''/mnt/repo'',
              env_vars = Some [''vault:X'', ''plain:A=1'', ''env:A:B:C''],
              forget_arguments = None\<rparr>)],
          pre_command = None, post_command = None\<rparr>"
        "[]" "''r1''"
        "\<lparr>endpoint = Some ''/mnt/repo'',
          env_vars = Some [''vault:X'', ''plain:A=1'', ''env:A:B:C''],
          forget_arguments = None\<rparr>"
        "[]" "[]" "[''plain:A=1'', ''env:A:B:C'']" Map.empty]
    skipped_directive_ignored
    [of "''env:A:B:C''"
        "\<lparr>install_location = None, backup_root = Some ''/srv'', to_backup = Some [''data''],
          repositories = Some [(''r1'',
             \<lparr>endpoint = Some ''/mnt/repo'',
              env_vars = Some [''plain:A=1'', ''env:A:B:C''],
              forget_arguments = None\<rparr>)],
          pre_command = None, post_command = None\<rparr>"
        "[]" "''r1''"
        "\<lparr>endpoint = Some ''/mnt/repo'',
          env_vars = Some [''plain:A=1'', ''env:A:B:C''],
          forget_arguments = None\<rparr>"
        "[]" "[''plain:A=1'']" "[]" Map.empty]
  by (simp add: silently_skipped_def generate_env_files_def get_repositories_def
      get_default_def env_file_header_def fmt_def env_var_text_def)

lemma env_var_text_error:
  "env_var_text env_values d = Inl e \<Longrightarrow> \<exists>k. e = KeyError k \<and> env_values k = None"
  using str_split_not_Nil [of "CHR '':''" d]
  by (auto simp add: env_var_text_def env_lookup_def Let_def split: list.splits if_splits option.splits sum.splits)

lemma env_var_text_unresolved:
  "unresolved_env env_values d \<Longrightarrow> \<exists>k. env_var_text env_values d = Inl (KeyError k) \<and> env_values k = None"
  by (auto simp add: unresolved_env_def env_var_text_def env_lookup_def split: list.splits if_splits)

lemma env_vars_loop_error:
  "env_vars_loop env_values ds content = Inl e \<Longrightarrow> \<exists>k. e = KeyError k \<and> env_values k = None"
  by (induction ds arbitrary: content) (auto split: sum.splits dest: env_var_text_error)

lemma env_vars_loop_unresolved:
  "d \<in> set ds \<Longrightarrow> unresolved_env env_values d \<Longrightarrow>
   \<exists>e. env_vars_loop env_values ds content = Inl e"
proof (induction ds arbitrary: content)
  case Nil
  then show ?case by simp
next
  case (Cons x ds)
  show ?case
  proof (cases "env_var_text env_values x")
    case (Inl e)
    then show ?thesis by simp
  next
    case (Inr t)
    with Cons.prems env_var_text_unresolved [of env_values d] have "d \<in> set ds" by auto
    from Cons.IH [OF this Cons.prems(2)] Inr show ?thesis by simp
  qed
qed

lemma repositories_loop_error:
  "repositories_loop env_values rs env_files = Inl e \<Longrightarrow> \<exists>k. e = KeyError k \<and> env_values k = None"
  by (induction rs arbitrary: env_files) (auto split: sum.splits dest: env_vars_loop_error)

lemma repositories_loop_unresolved:
  "(n, r) \<in> set rs \<Longrightarrow> d \<in> set (get_default (env_vars r) []) \<Longrightarrow>
   unresolved_env env_values d \<Longrightarrow> \<exists>e. repositories_loop env_values rs env_files = Inl e"
proof (induction rs arbitrary: env_files)
  case Nil
  then show ?case by simp
next
  case (Cons p rs)
  obtain n' r' where p: "p = (n', r')" by (cases p)
  show ?case
  proof (cases "env_vars_loop env_values (get_default (env_vars r') []) (env_file_header n' r')")
    case (Inl e)
    then show ?thesis by (simp add: p)
  next
    case (Inr c)
    have "(n, r) \<noteq> (n', r')"
    proof
      assume "(n, r) = (n', r')"
      with Cons.prems env_vars_loop_unresolved [of d "get_default (env_vars r) []" env_values "env_file_header n' r'"] Inr
      show False by auto
    qed
    with Cons.prems p have "(n, r) \<in> set rs" by auto
    from Cons.IH [OF this Cons.prems(2,3)] Inr show ?thesis by (simp add: p)
  qed
qed

text \<open>
  Claim C2. If some repository holds a directive \<^verbatim>\<open>env:SRC\<close> or \<^verbatim>\<open>env:SRC:DST\<close> whose
  \<open>SRC\<close> is not a key of the secret source, the generator returns no file at all: it
  raises \<^verbatim>\<open>KeyError\<close>, carrying a name that the secret source does not define.
\<close>

theorem unresolved_env_raises:
  assumes "(n, r) \<in> set (get_repositories agent)"
    and "d \<in> set (get_default (env_vars r) [])"
    and "unresolved_env env_values d"
  shows "\<exists>k. generate_env_files env_values agent = Inl (KeyError k) \<and> env_values k = None"
proof -
  from repositories_loop_unresolved [OF assms] obtain e
    where e: "repositories_loop env_values (get_repositories agent) [] = Inl e" by blast
  from repositories_loop_error [OF e] e show ?thesis
    by (auto simp add: generate_env_files_def)
qed

theorem unresolved_env_raises_witness:
  "\<exists>k. generate_env_files (Map.empty(''OTHER'' \<mapsto> Some ''x''))
       \<lparr>install_location = None, backup_root = Some ''/srv'', to_backup = Some [''data''],
        repositories = Some [(''r1'',
           \<lparr>endpoint = Some ''/mnt/repo'',
            env_vars = Some [''plain:A=1'', ''env:SRC:DST''],
            forget_arguments = None\<rparr>)],
        pre_command = None, post_command = None\<rparr> = Inl (KeyError k)
     \<and> (Map.empty(''OTHER'' \<mapsto> Some ''x'')) k = None"
  using unresolved_env_raises
    [of "''r1''"
        "\<lparr>endpoint = Some ''/mnt/repo'',
          env_vars = Some [''plain:A=1'', ''env:SRC:DST''],
          forget_arguments = None\<rparr>"
        "\<lparr>install_location = None, backup_root = Some ''/srv'', to_backup = Some [''data''],
          repositories = Some [(''r1'',
             \<lparr>endpoint = Some ''/mnt/repo'',
              env_vars = Some [''plain:A=1'', ''env:SRC:DST''],
              forget_arguments = None\<rparr>)],
          pre_command = None, post_command = None\<rparr>"
        "''env:SRC:DST''" "Map.empty(''OTHER'' \<mapsto> Some ''x'')"]
  by (simp add: get_repositories_def get_default_def unresolved_env_def)

section \<open>Properties of the script generator\<close>

lemma emit_emit: "emit s (emit t r) = emit (s @ t) r"
  by (simp add: emit_def split: sum.splits)

lemma emit_Inr: "emit s (Inr t) = Inr (s @ t)"
  by (simp add: emit_def)

lemma substitute_literal:
  "CHR ''$'' \<notin> set lit \<Longrightarrow> substitute kws (lit @ rest) = emit lit (substitute kws rest)"
proof (induction lit)
  case Nil
  show ?case by (simp add: emit_def split: sum.splits)
next
  case (Cons c lit)
  then have "c \<noteq> CHR ''$''" and "CHR ''$'' \<notin> set lit" by auto
  with Cons.IH show ?case by (simp add: emit_emit)
qed

lemma substitute_escaped: "substitute kws (''$$'' @ rest) = emit ''$'' (substitute kws rest)"
  by simp

lemma takeWhile_ident: "\<forall>c \<in> set name. ident_char c \<Longrightarrow>
   takeWhile ident_char (name @ CHR ''}'' # rest) = name"
  by (induction name) (auto simp add: ident_char_def ident_start_def)

lemma dropWhile_ident: "\<forall>c \<in> set name. ident_char c \<Longrightarrow>
   dropWhile ident_char (name @ CHR ''}'' # rest) = CHR ''}'' # rest"
  by (induction name) (auto simp add: ident_char_def ident_start_def)

lemma substitute_braced:
  assumes "name \<noteq> []" and "ident_start (hd name)" and "\<forall>c \<in> set name. ident_char c"
    and "map_of kws name = Some v"
  shows "substitute kws (''${'' @ name @ ''}'' @ rest) = emit v (substitute kws rest)"
proof -
  have "\<not> ident_start CHR ''{''" by (simp add: ident_start_def)
  moreover have "\<not> ident_char CHR ''}''" by (simp add: ident_char_def ident_start_def)
  ultimately show ?thesis using assms by simp
qed


lemma generate_repository_script_block:
  "generate_repository_script agent repo_name repo = spec_repository_block agent repo_name repo"
  by (simp add: generate_repository_script_def spec_repository_block_def start_marker_def
      end_marker_def prepare_steps_def backup_step_def retention_step_def truthy_def fmt_def
      split: option.splits)

lemma substitute_script_template:
  assumes "map_of kws ''date'' = Some v_date"
    and "map_of kws ''install_location'' = Some v_loc"
    and "map_of kws ''backup_root'' = Some v_root"
    and "map_of kws ''pre_commands'' = Some v_pre"
    and "map_of kws ''repository_scripts'' = Some v_repos"
    and "map_of kws ''post_commands'' = Some v_post"
  shows "substitute kws script_template
     = Inr (''#!/bin/bash -e\<newline># Generated on '' @ v_date
          @ '' by multi-restic\<newline>\<newline>export PATH='' @ v_loc
          @ '':'' @ ''$'' @ ''PATH\<newline>cd '' @ v_root
          @ ''\<newline>\<newline># Pre-backup commands\<newline>'' @ v_pre
          @ ''\<newline>\<newline>'' @ v_repos
          @ ''\<newline># Post-backup commands\<newline>'' @ v_post
          @ ''\<newline>'')"
proof -
  have t: "script_template
     = ''#!/bin/bash -e\<newline># Generated on '' @ ''${'' @ ''date'' @ ''}''
       @ '' by multi-restic\<newline>\<newline>export PATH='' @ ''${'' @ ''install_location'' @ ''}''
       @ '':'' @ ''$$'' @ ''PATH\<newline>cd '' @ ''${'' @ ''backup_root'' @ ''}''
       @ ''\<newline>\<newline># Pre-backup commands\<newline>'' @ ''${'' @ ''pre_commands'' @ ''}''
       @ ''\<newline>\<newline>'' @ ''${'' @ ''repository_scripts'' @ ''}''
       @ ''\<newline># Post-backup commands\<newline>'' @ ''${'' @ ''post_commands'' @ ''}''
       @ ''\<newline>''"
    by (simp add: script_template_def)
  have l0: "CHR ''$'' \<notin> set ''#!/bin/bash -e\<newline># Generated on ''" by simp
  have l1: "CHR ''$'' \<notin> set '' by multi-restic\<newline>\<newline>export PATH=''" by simp
  have l2: "CHR ''$'' \<notin> set '':''" by simp
  have l3: "CHR ''$'' \<notin> set ''PATH\<newline>cd ''" by simp
  have l4: "CHR ''$'' \<notin> set ''\<newline>\<newline># Pre-backup commands\<newline>''" by simp
  have l5: "CHR ''$'' \<notin> set ''\<newline>\<newline>''" by simp
  have l6: "CHR ''$'' \<notin> set ''\<newline># Post-backup commands\<newline>''" by simp
  have l7: "substitute kws ''\<newline>'' = Inr ''\<newline>''" by (simp add: emit_def)
  have b1: "substitute kws (''${'' @ ''date'' @ ''}'' @ rest) = emit v_date (substitute kws rest)" for rest
    by (rule substitute_braced [OF _ _ _ assms(1)]) (simp_all add: ident_start_def ident_char_def)
  have b2: "substitute kws (''${'' @ ''install_location'' @ ''}'' @ rest) = emit v_loc (substitute kws rest)" for rest
    by (rule substitute_braced [OF _ _ _ assms(2)]) (simp_all add: ident_start_def ident_char_def)
  have b3: "substitute kws (''${'' @ ''backup_root'' @ ''}'' @ rest) = emit v_root (substitute kws rest)" for rest
    by (rule substitute_braced [OF _ _ _ assms(3)]) (simp_all add: ident_start_def ident_char_def)
  have b4: "substitute kws (''${'' @ ''pre_commands'' @ ''}'' @ rest) = emit v_pre (substitute kws rest)" for rest
    by (rule substitute_braced [OF _ _ _ assms(4)]) (simp_all add: ident_start_def ident_char_def)
  have b5: "substitute kws (''${'' @ ''repository_scripts'' @ ''}'' @ rest) = emit v_repos (substitute kws rest)" for rest
    by (rule substitute_braced [OF _ _ _ assms(5)]) (simp_all add: ident_start_def ident_char_def)
  have b6: "substitute kws (''${'' @ ''post_commands'' @ ''}'' @ rest) = emit v_post (substitute kws rest)" for rest
    by (rule substitute_braced [OF _ _ _ assms(6)]) (simp_all add: ident_start_def ident_char_def)
  show ?thesis
    unfolding t
    by (simp only: substitute_literal [OF l0] substitute_literal [OF l1] substitute_literal [OF l2]
        substitute_literal [OF l3] substitute_literal [OF l4] substitute_literal [OF l5]
        substitute_literal [OF l6] l7 substitute_escaped
        b1 b2 b3 b4 b5 b6 emit_Inr append_assoc)
qed

lemma generate_script_structure:
  "generate_script now agent
     = Inr (script_prologue now agent
            @ concat (map (\<lambda>(repo_name, repo). spec_repository_block agent repo_name repo)
                        (get_repositories agent))
            @ script_epilogue agent)"
proof -
  have blocks: "map (\<lambda>(repo_name, repo). generate_repository_script agent repo_name repo) rs
      = map (\<lambda>(repo_name, repo). spec_repository_block agent repo_name repo) rs" for rs
    by (simp add: generate_repository_script_block)
  have pre: "(if truthy (pre_command agent)
              then str_join '' && '' (get_default (pre_command agent) []) else [])
           = (case pre_command agent of None \<Rightarrow> [] | Some cmds \<Rightarrow> str_join '' && '' cmds)"
    by (cases "pre_command agent") (auto simp add: truthy_def get_default_def)
  have post: "(if truthy (post_command agent)
              then str_join '' && '' (get_default (post_command agent) []) else [])
           = (case post_command agent of None \<Rightarrow> [] | Some cmds \<Rightarrow> str_join '' && '' cmds)"
    by (cases "post_command agent") (auto simp add: truthy_def get_default_def)
  show ?thesis
    unfolding generate_script_def blocks pre post
    by (subst substitute_script_template) (simp_all add: script_prologue_def script_epilogue_def)
qed


text \<open>
  Claim C4, as amended. The generator always returns a script, and the script is the
  prologue, then one block per repository in the declared order, then the epilogue. Each
  block starts with its \<^verbatim>\<open># START name\<close> line and ends with its \<^verbatim>\<open># END name\<close> line; the
  backup step is followed at once by the retention step when \<^verbatim>\<open>forget_arguments\<close> is present
  and not the empty text, and at once by the end marker otherwise.
\<close>

theorem generate_script_blocks:
  "generate_script now agent
     = Inr (script_prologue now agent
            @ concat (map (\<lambda>(repo_name, repo). spec_repository_block agent repo_name repo)
                        (get_repositories agent))
            @ script_epilogue agent)"
  by (rule generate_script_structure)

theorem generate_script_blocks_witness:
  "generate_script ''2025-01-01T02:00:00''
     \<lparr>install_location = None, backup_root = Some ''/srv'', to_backup = Some [''data'', ''etc''],
      repositories = Some
        [(''r1'', \<lparr>endpoint = Some ''/mnt/r1'', env_vars = None, forget_arguments = None\<rparr>),
         (''r2'', \<lparr>endpoint = Some ''/mnt/r2'', env_vars = None,
                  forget_arguments = Some ''--keep-daily 7''\<rparr>)],
      pre_command = None, post_command = Some [''sync'', ''date'']\<rparr>
   = Inr (''#!/bin/bash -e\<newline>''
        @ ''# Generated on 2025-01-01T02:00:00 by multi-restic\<newline>''
        @ ''\<newline>''
        @ ''export PATH=/opt/multi-restic:$PATH\<newline>''
        @ ''cd /srv\<newline>''
        @ ''\<newline>''
        @ ''# Pre-backup commands\<newline>''
        @ ''\<newline>''
        @ ''\<newline>''
        @ ''# START r1\<newline>''
        @ ''source /opt/multi-restic/.env.r1\<newline>''
        @ ''\<newline>''
        @ ''if ! restic cat config >/dev/null 2>&1; then\<newline>''
        @ ''    # Restic automatically does `mkdir -p` if necessary\<newline>''
        @ ''    restic init\<newline>''
        @ ''fi\<newline>''
        @ ''\<newline>''
        @ ''restic backup data etc\<newline>''
        @ ''# END r1\<newline>''
        @ ''# START r2\<newline>''
        @ ''source /opt/multi-restic/.env.r2\<newline>''
        @ ''\<newline>''
        @ ''if ! restic cat config >/dev/null 2>&1; then\<newline>''
        @ ''    # Restic automatically does `mkdir -p` if necessary\<newline>''
        @ ''    restic init\<newline>''
        @ ''fi\<newline>''
        @ ''\<newline>''
        @ ''restic backup data etc\<newline>''
        @ ''restic forget --keep-daily 7 --prune\<newline>''
        @ ''# END r2\<newline>''
        @ ''\<newline>''
        @ ''# Post-backup commands\<newline>''
        @ ''sync && date\<newline>'')"
  using generate_script_blocks
    [of "''2025-01-01T02:00:00''"
        "\<lparr>install_location = None, backup_root = Some ''/srv'', to_backup = Some [''data'', ''etc''],
          repositories = Some
            [(''r1'', \<lparr>endpoint = Some ''/mnt/r1'', env_vars = None, forget_arguments = None\<rparr>),
             (''r2'', \<lparr>endpoint = Some ''/mnt/r2'', env_vars = None,
                      forget_arguments = Some ''--keep-daily 7''\<rparr>)],
          pre_command = None, post_command = Some [''sync'', ''date'']\<rparr>"]
  by (simp add: script_prologue_def script_epilogue_def spec_repository_block_def
      start_marker_def end_marker_def prepare_steps_def backup_step_def retention_step_def
      get_repositories_def get_install_location_def get_default_def fmt_def)

text \<open>
  Claim C4 as stated fails where \<^verbatim>\<open>forget_arguments\<close> is set to the empty text: the key is
  present, and the block has no retention step (the end marker follows the backup step).
\<close>

theorem retention_step_empty_arguments_counterexample:
  "generate_repository_script
     \<lparr>install_location = None, backup_root = Some ''/srv'', to_backup = Some [''data''],
      repositories = Some
        [(''r1'', \<lparr>endpoint = Some ''/mnt/r1'', env_vars = None, forget_arguments = Some []\<rparr>)],
      pre_command = None, post_command = None\<rparr>
     ''r1''
     \<lparr>endpoint = Some ''/mnt/r1'', env_vars = None, forget_arguments = Some []\<rparr>
   = ''# START r1\<newline>''
     @ ''source /opt/multi-restic/.env.r1\<newline>''
     @ ''\<newline>''
     @ ''if ! restic cat config >/dev/null 2>&1; then\<newline>''
     @ ''    # Restic automatically does `mkdir -p` if necessary\<newline>''
     @ ''    restic init\<newline>''
     @ ''fi\<newline>''
     @ ''\<newline>''
     @ ''restic backup data\<newline>''
     @ ''# END r1\<newline>''"
  by (simp add: generate_repository_script_def truthy_def get_install_location_def
      get_default_def)

lemma non_secret_part_fields:
  assumes "non_secret_part a = non_secret_part b"
  shows "install_location a = install_location b" and "backup_root a = backup_root b"
    and "to_backup a = to_backup b" and "pre_command a = pre_command b"
    and "post_command a = post_command b"
    and "map_option (map (\<lambda>(n, r). (n, r\<lparr>endpoint := None, env_vars := None\<rparr>))) (repositories a)
       = map_option (map (\<lambda>(n, r). (n, r\<lparr>endpoint := None, env_vars := None\<rparr>))) (repositories b)"
proof -
  have f: "install_location (non_secret_part x) = install_location x"
    "backup_root (non_secret_part x) = backup_root x"
    "to_backup (non_secret_part x) = to_backup x"
    "pre_command (non_secret_part x) = pre_command x"
    "post_command (non_secret_part x) = post_command x"
    "repositories (non_secret_part x)
       = map_option (map (\<lambda>(n, r). (n, r\<lparr>endpoint := None, env_vars := None\<rparr>))) (repositories x)"
    for x by (simp_all add: non_secret_part_def)
  from assms f [of a] f [of b] show "install_location a = install_location b" by metis
  from assms f [of a] f [of b] show "backup_root a = backup_root b" by metis
  from assms f [of a] f [of b] show "to_backup a = to_backup b" by metis
  from assms f [of a] f [of b] show "pre_command a = pre_command b" by metis
  from assms f [of a] f [of b] show "post_command a = post_command b" by metis
  from assms f [of a] f [of b]
  show "map_option (map (\<lambda>(n, r). (n, r\<lparr>endpoint := None, env_vars := None\<rparr>))) (repositories a)
       = map_option (map (\<lambda>(n, r). (n, r\<lparr>endpoint := None, env_vars := None\<rparr>))) (repositories b)"
    by metis
qed

lemma blocks_erased:
  "spec_repository_block a n (r\<lparr>endpoint := None, env_vars := None\<rparr>) = spec_repository_block a n r"
  by (simp add: spec_repository_block_def)

lemma blocks_agent:
  assumes "install_location a = install_location b" and "to_backup a = to_backup b"
  shows "spec_repository_block a n r = spec_repository_block b n r"
  using assms
  by (simp add: spec_repository_block_def prepare_steps_def backup_step_def
      get_install_location_def)

lemma blocks_of_erased:
  "concat (map (\<lambda>(n, r). spec_repository_block a n r)
             (map (\<lambda>(n, r). (n, r\<lparr>endpoint := None, env_vars := None\<rparr>)) rs))
   = concat (map (\<lambda>(n, r). spec_repository_block a n r) rs)"
  by (induction rs) (auto simp add: blocks_erased)

lemma generate_script_non_secret:
  assumes "non_secret_part a = non_secret_part b"
  shows "generate_script now a = generate_script now b"
proof -
  note f = non_secret_part_fields [OF assms]
  let ?erase = "map (\<lambda>(n, r). (n, r\<lparr>endpoint := None, env_vars := None\<rparr>))"
  have "?erase (get_repositories a) = ?erase (get_repositories b)"
    using f(6) by (cases "repositories a"; cases "repositories b")
      (simp_all add: get_repositories_def get_default_def)
  then have "concat (map (\<lambda>(n, r). spec_repository_block a n r) (?erase (get_repositories a)))
      = concat (map (\<lambda>(n, r). spec_repository_block a n r) (?erase (get_repositories b)))"
    by simp
  then have "concat (map (\<lambda>(n, r). spec_repository_block a n r) (get_repositories a))
      = concat (map (\<lambda>(n, r). spec_repository_block a n r) (get_repositories b))"
    by (simp only: blocks_of_erased)
  moreover have "spec_repository_block a = spec_repository_block b"
    using blocks_agent [OF f(1) f(3)] by (intro ext)
  moreover have "script_prologue now a = script_prologue now b"
    using f by (simp add: script_prologue_def get_install_location_def)
  moreover have "script_epilogue a = script_epilogue b"
    using f by (simp add: script_epilogue_def)
  ultimately show ?thesis
    by (simp add: generate_script_structure)
qed

lemma script_sources_secret_file:
  assumes "(n, r) \<in> set (get_repositories a)" and "generate_script now a = Inr script"
  shows "\<exists>before after. script
     = before @ ''source '' @ get_install_location a @ ''/.env.'' @ n @ ''\<newline>'' @ after"
proof -
  from assms(1) obtain rs1 rs2 where rs: "get_repositories a = rs1 @ (n, r) # rs2"
    by (auto dest: split_list)
  let ?blocks = "\<lambda>rs. concat (map (\<lambda>(n, r). spec_repository_block a n r) rs)"
  obtain tl_block where b: "spec_repository_block a n r
      = start_marker n @ (''source '' @ get_install_location a @ ''/.env.'' @ n @ ''\<newline>'')
        @ tl_block"
    by (simp add: spec_repository_block_def prepare_steps_def)
  have "script = (script_prologue now a @ ?blocks rs1 @ start_marker n)
      @ ''source '' @ get_install_location a @ ''/.env.'' @ n @ ''\<newline>''
      @ (tl_block @ ?blocks rs2 @ script_epilogue a)"
    using assms(2) by (simp add: generate_script_structure rs b)
  then show ?thesis by blast
qed

text \<open>
  Claim C9. The script of a run depends on neither the secret source nor the inputs of the
  secret files: two runs that both produce their artifacts, with any two secret sources
  and configurations that agree outside endpoint and \<^verbatim>\<open>env_vars\<close>, produce the same script
  text; and the script reaches the secrets of every repository through the line that
  sources its secret file.
\<close>

theorem script_independent_of_secrets:
  assumes "generate_artifacts env1 now agent1 = Inr (files1, script1)"
    and "generate_artifacts env2 now agent2 = Inr (files2, script2)"
    and "non_secret_part agent1 = non_secret_part agent2"
  shows "script1 = script2
     \<and> (\<forall>(n, r) \<in> set (get_repositories agent1). \<exists>before after. script1
          = before @ ''source '' @ get_install_location agent1 @ ''/.env.'' @ n @ ''\<newline>'' @ after)"
proof -
  from assms(1) have s1: "generate_script now agent1 = Inr script1"
    by (auto simp add: generate_artifacts_def split: sum.splits)
  from assms(2) have s2: "generate_script now agent2 = Inr script2"
    by (auto simp add: generate_artifacts_def split: sum.splits)
  from s1 s2 generate_script_non_secret [OF assms(3), of now] have "script1 = script2" by simp
  moreover have "\<forall>(n, r) \<in> set (get_repositories agent1). \<exists>before after. script1
          = before @ ''source '' @ get_install_location agent1 @ ''/.env.'' @ n @ ''\<newline>'' @ after"
    using script_sources_secret_file [OF _ s1] by blast
  ultimately show ?thesis by blast
qed

theorem script_independent_of_secrets_witness:
  "generate_artifacts (Map.empty(''KEY'' \<mapsto> Some ''alpha'')) ''2025-01-01T02:00:00''
     \<lparr>install_location = Some ''/opt/mr'', backup_root = Some ''/srv'', to_backup = Some [''data''],
      repositories = Some
        [(''r1'', \<lparr>endpoint = Some ''/mnt/r1'', env_vars = Some [''env:KEY''],
                  forget_arguments = None\<rparr>)],
      pre_command = None, post_command = None\<rparr>
   = Inr ([(''r1'', ''# Environment variables for repository r1\<newline>''
                 @ ''export RESTIC_REPOSITORY=/mnt/r1\<newline>''
                 @ ''export KEY=alpha\<newline>'')],
          ''#!/bin/bash -e\<newline>''
          @ ''# Generated on 2025-01-01T02:00:00 by multi-restic\<newline>''
          @ ''\<newline>''
          @ ''export PATH=/opt/mr:$PATH\<newline>''
          @ ''cd /srv\<newline>''
          @ ''\<newline>''
          @ ''# Pre-backup commands\<newline>''
          @ ''\<newline>''
          @ ''\<newline>''
          @ ''# START r1\<newline>''
          @ ''source /opt/mr/.env.r1\<newline>''
          @ ''\<newline>''
          @ ''if ! restic cat config >/dev/null 2>&1; then\<newline>''
          @ ''    # Restic automatically does `mkdir -p` if necessary\<newline>''
          @ ''    restic init\<newline>''
          @ ''fi\<newline>''
          @ ''\<newline>''
          @ ''restic backup data\<newline>''
          @ ''# END r1\<newline>''
          @ ''\<newline>''
          @ ''# Post-backup commands\<newline>''
          @ ''\<newline>'')
   \<and> (\<exists>files2 script2.
         generate_artifacts (Map.empty(''KEY'' \<mapsto> Some ''beta'')) ''2025-01-01T02:00:00''
           \<lparr>install_location = Some ''/opt/mr'', backup_root = Some ''/srv'',
            to_backup = Some [''data''],
            repositories = Some
              [(''r1'', \<lparr>endpoint = Some ''/mnt/other'', env_vars = Some [''env:KEY'', ''plain:P=1''],
                        forget_arguments = None\<rparr>)],
            pre_command = None, post_command = None\<rparr>
           = Inr (files2, script2)
         \<and> script2
           = ''#!/bin/bash -e\<newline>''
             @ ''# Generated on 2025-01-01T02:00:00 by multi-restic\<newline>''
             @ ''\<newline>''
             @ ''export PATH=/opt/mr:$PATH\<newline>''
             @ ''cd /srv\<newline>''
             @ ''\<newline>''
             @ ''# Pre-backup commands\<newline>''
             @ ''\<newline>''
             @ ''\<newline>''
             @ ''# START r1\<newline>''
             @ ''source /opt/mr/.env.r1\<newline>''
             @ ''\<newline>''
             @ ''if ! restic cat config >/dev/null 2>&1; then\<newline>''
             @ ''    # Restic automatically does `mkdir -p` if necessary\<newline>''
             @ ''    restic init\<newline>''
             @ ''fi\<newline>''
             @ ''\<newline>''
             @ ''restic backup data\<newline>''
             @ ''# END r1\<newline>''
             @ ''\<newline>''
             @ ''# Post-backup commands\<newline>''
             @ ''\<newline>'')"
proof -
  let ?a1 = "\<lparr>install_location = Some ''/opt/mr'', backup_root = Some ''/srv'',
      to_backup = Some [''data''],
      repositories = Some
        [(''r1'', \<lparr>endpoint = Some ''/mnt/r1'', env_vars = Some [''env:KEY''],
                  forget_arguments = None\<rparr>)],
      pre_command = None, post_command = None\<rparr>"
  let ?a2 = "\<lparr>install_location = Some ''/opt/mr'', backup_root = Some ''/srv'',
      to_backup = Some [''data''],
      repositories = Some
        [(''r1'', \<lparr>endpoint = Some ''/mnt/other'', env_vars = Some [''env:KEY'', ''plain:P=1''],
                  forget_arguments = None\<rparr>)],
      pre_command = None, post_command = None\<rparr>"
  let ?e1 = "Map.empty(''KEY'' \<mapsto> Some ''alpha'')"
  let ?e2 = "Map.empty(''KEY'' \<mapsto> Some ''beta'')"
  let ?now = "''2025-01-01T02:00:00''"
  let ?files1 = "[(''r1'', ''# Environment variables for repository r1\<newline>''
                 @ ''export RESTIC_REPOSITORY=/mnt/r1\<newline>''
                 @ ''export KEY=alpha\<newline>'')]"
  let ?files2 = "[(''r1'', ''# Environment variables for repository r1\<newline>''
                 @ ''export RESTIC_REPOSITORY=/mnt/other\<newline>''
                 @ ''export KEY=beta\<newline>''
                 @ ''export P=1\<newline>'')]"
  let ?script = "script_prologue ?now ?a1
      @ concat (map (\<lambda>(n, r). spec_repository_block ?a1 n r) (get_repositories ?a1))
      @ script_epilogue ?a1"
  let ?script2 = "script_prologue ?now ?a2
      @ concat (map (\<lambda>(n, r). spec_repository_block ?a2 n r) (get_repositories ?a2))
      @ script_epilogue ?a2"
  have f1: "generate_env_files ?e1 ?a1 = Inr ?files1"
    by (simp add: generate_env_files_def get_repositories_def get_default_def
        env_file_header_def fmt_def env_var_text_def env_lookup_def)
  have f2: "generate_env_files ?e2 ?a2 = Inr ?files2"
    by (simp add: generate_env_files_def get_repositories_def get_default_def
        env_file_header_def fmt_def env_var_text_def env_lookup_def)
  have h1: "generate_artifacts ?e1 ?now ?a1 = Inr (?files1, ?script)"
    unfolding generate_artifacts_def f1 generate_script_structure by simp
  have h2: "generate_artifacts ?e2 ?now ?a2 = Inr (?files2, ?script2)"
    unfolding generate_artifacts_def f2 generate_script_structure by simp
  have h3: "non_secret_part ?a1 = non_secret_part ?a2"
    by (simp add: non_secret_part_def)
  have same: "?script = ?script2"
    using script_independent_of_secrets [OF h1 h2 h3] by blast
  have lit: "?script = ''#!/bin/bash -e\<newline>''
          @ ''# Generated on 2025-01-01T02:00:00 by multi-restic\<newline>''
          @ ''\<newline>''
          @ ''export PATH=/opt/mr:$PATH\<newline>''
          @ ''cd /srv\<newline>''
          @ ''\<newline>''
          @ ''# Pre-backup commands\<newline>''
          @ ''\<newline>''
          @ ''\<newline>''
          @ ''# START r1\<newline>''
          @ ''source /opt/mr/.env.r1\<newline>''
          @ ''\<newline>''
          @ ''if ! restic cat config >/dev/null 2>&1; then\<newline>''
          @ ''    # Restic automatically does `mkdir -p` if necessary\<newline>''
          @ ''    restic init\<newline>''
          @ ''fi\<newline>''
          @ ''\<newline>''
          @ ''restic backup data\<newline>''
          @ ''# END r1\<newline>''
          @ ''\<newline>''
          @ ''# Post-backup commands\<newline>''
          @ ''\<newline>''"
    by (simp add: script_prologue_def script_epilogue_def spec_repository_block_def
        start_marker_def end_marker_def prepare_steps_def backup_step_def
        get_repositories_def get_install_location_def get_default_def fmt_def)
  from h1 lit have "generate_artifacts ?e1 ?now ?a1 = Inr (?files1, ''#!/bin/bash -e\<newline>''
          @ ''# Generated on 2025-01-01T02:00:00 by multi-restic\<newline>''
          @ ''\<newline>''
          @ ''export PATH=/opt/mr:$PATH\<newline>''
          @ ''cd /srv\<newline>''
          @ ''\<newline>''
          @ ''# Pre-backup commands\<newline>''
          @ ''\<newline>''
          @ ''\<newline>''
          @ ''# START r1\<newline>''
          @ ''source /opt/mr/.env.r1\<newline>''
          @ ''\<newline>''
          @ ''if ! restic cat config >/dev/null 2>&1; then\<newline>''
          @ ''    # Restic automatically does `mkdir -p` if necessary\<newline>''
          @ ''    restic init\<newline>''
          @ ''fi\<newline>''
          @ ''\<newline>''
          @ ''restic backup data\<newline>''
          @ ''# END r1\<newline>''
          @ ''\<newline>''
          @ ''# Post-backup commands\<newline>''
          @ ''\<newline>'')"
    by (simp only:)
  moreover from h2 same lit have "generate_artifacts ?e2 ?now ?a2 = Inr (?files2, ?script2)
       \<and> ?script2 = ''#!/bin/bash -e\<newline>''
          @ ''# Generated on 2025-01-01T02:00:00 by multi-restic\<newline>''
          @ ''\<newline>''
          @ ''export PATH=/opt/mr:$PATH\<newline>''
          @ ''cd /srv\<newline>''
          @ ''\<newline>''
          @ ''# Pre-backup commands\<newline>''
          @ ''\<newline>''
          @ ''\<newline>''
          @ ''# START r1\<newline>''
          @ ''source /opt/mr/.env.r1\<newline>''
          @ ''\<newline>''
          @ ''if ! restic cat config >/dev/null 2>&1; then\<newline>''
          @ ''    # Restic automatically does `mkdir -p` if necessary\<newline>''
          @ ''    restic init\<newline>''
          @ ''fi\<newline>''
          @ ''\<newline>''
          @ ''restic backup data\<newline>''
          @ ''# END r1\<newline>''
          @ ''\<newline>''
          @ ''# Post-backup commands\<newline>''
          @ ''\<newline>''"
    by (simp only:)
  ultimately show ?thesis by blast
qed

section \<open>Properties of the cron scheduler\<close>

lemma contains_sublist: "contains pat s = sublist pat s"
proof (induction s)
  case Nil
  show ?case by simp
next
  case (Cons c s)
  then show ?case by (simp add: sublist_Cons_right [of pat c s])
qed

lemma sublist_dropWhile_iff:
  "pat \<noteq> [] \<Longrightarrow> \<not> P (hd pat) \<Longrightarrow> sublist pat (dropWhile P s) = sublist pat s"
proof (induction s)
  case Nil
  then show ?case by simp
next
  case (Cons c s)
  show ?case
  proof (cases "P c")
    case True
    with Cons.prems have "\<not> prefix pat (c # s)" by (cases pat) auto
    with True Cons show ?thesis by (simp add: sublist_Cons_right [of pat c s])
  next
    case False
    then show ?thesis by simp
  qed
qed

lemma sublist_rstrip_iff:
  assumes "pat \<noteq> []" and "\<not> is_space (last pat)"
  shows "sublist pat (rstrip s) = sublist pat s"
proof -
  have "sublist pat (rstrip s) = sublist (rev pat) (dropWhile is_space (rev s))"
    by (simp add: rstrip_def sublist_rev_right)
  also have "\<dots> = sublist (rev pat) (rev s)"
    using assms by (intro sublist_dropWhile_iff) (simp_all add: hd_rev)
  also have "\<dots> = sublist pat s" by simp
  finally show ?thesis .
qed

lemma is_marker_sublist: "is_marker line = sublist ''# -- multi-restic --'' line"
proof -
  have "is_marker line = sublist ''# -- multi-restic --'' (dropWhile is_space (rstrip line))"
    by (simp add: is_marker_def contains_sublist strip_def lstrip_def)
  also have "\<dots> = sublist ''# -- multi-restic --'' (rstrip line)"
    by (intro sublist_dropWhile_iff) (simp_all add: is_space_def)
  also have "\<dots> = sublist ''# -- multi-restic --'' line"
    by (intro sublist_rstrip_iff) (simp_all add: is_space_def)
  finally show ?thesis .
qed

lemma is_marker_prefix: "prefix l' l \<Longrightarrow> is_marker l' \<Longrightarrow> is_marker l"
  unfolding is_marker_sublist
proof -
  assume p: "prefix l' l" and s: "sublist ''# -- multi-restic --'' l'"
  from p obtain z where "l = l' @ z" by (auto simp add: prefix_def)
  moreover from s obtain x y where "l' = x @ ''# -- multi-restic --'' @ y"
    by (auto simp add: sublist_def)
  ultimately have "l = x @ ''# -- multi-restic --'' @ (y @ z)" by simp
  then show "sublist ''# -- multi-restic --'' l" unfolding sublist_def by blast
qed

lemma not_marker_empty: "\<not> is_marker []"
  by (simp add: is_marker_sublist)


lemma unlines_simps:
  "unlines [] = []" "unlines (l # ls) = l @ ''\<newline>'' @ unlines ls"
  "unlines (xs @ ys) = unlines xs @ unlines ys"
  by (simp_all add: unlines_def)

lemma scan_lines_line:
  "\<forall>ch \<in> set l. \<not> is_linebreak ch \<Longrightarrow>
   scan_lines cur (l @ CHR 0x0A # rest) = (cur @ l) # scan_lines [] rest"
proof (induction l arbitrary: cur)
  case Nil
  show ?case by (simp add: is_linebreak_def)
next
  case (Cons c l)
  then have c: "\<not> is_linebreak c" and l: "\<forall>ch \<in> set l. \<not> is_linebreak ch" by auto
  from c have "c \<noteq> CHR 0x0D" by (auto simp add: is_linebreak_def)
  with c Cons.IH [OF l, of "cur @ [c]"] show ?case by simp
qed

lemma splitlines_unlines:
  "\<forall>l \<in> set K. \<forall>ch \<in> set l. \<not> is_linebreak ch \<Longrightarrow> splitlines (unlines K) = K"
  unfolding splitlines_def
proof (induction K)
  case Nil
  show ?case by (simp add: unlines_simps)
next
  case (Cons l K)
  then have "scan_lines [] (l @ CHR 0x0A # unlines K) = ([] @ l) # scan_lines [] (unlines K)"
    by (intro scan_lines_line) simp
  with Cons show ?case by (simp add: unlines_simps)
qed

lemma scan_lines_no_breaks:
  "\<forall>ch \<in> set cur. \<not> is_linebreak ch \<Longrightarrow> l \<in> set (scan_lines cur s) \<Longrightarrow>
   \<forall>ch \<in> set l. \<not> is_linebreak ch"
proof (induction cur s rule: scan_lines.induct)
  case (1 cur)
  from "1.prems"(2) have "l = cur" by (simp split: if_splits)
  with "1.prems"(1) show ?case by simp
next
  case (2 cur c cs)
  have empty: "\<forall>ch \<in> set ([] :: string). \<not> is_linebreak ch" by simp
  show ?case
  proof (cases "c = CHR 0x0D \<and> take 1 cs = [CHR 0x0A]")
    case True
    have "scan_lines cur (c # cs) = cur # scan_lines [] (drop 1 cs)"
      using True by simp
    with "2.prems"(2) have "l = cur \<or> l \<in> set (scan_lines [] (drop 1 cs))" by simp
    then show ?thesis
    proof
      assume "l = cur" with "2.prems"(1) show ?thesis by simp
    next
      assume "l \<in> set (scan_lines [] (drop 1 cs))"
      then show ?thesis by (rule "2.IH"(1) [OF True empty])
    qed
  next
    case False
    show ?thesis
    proof (cases "is_linebreak c")
      case True
      have "scan_lines cur (c # cs) = cur # scan_lines [] cs"
        by (simp only: scan_lines.simps False True if_False if_True)
      with "2.prems"(2) have "l = cur \<or> l \<in> set (scan_lines [] cs)" by simp
      then show ?thesis
      proof
        assume "l = cur" with "2.prems"(1) show ?thesis by simp
      next
        assume "l \<in> set (scan_lines [] cs)"
        then show ?thesis by (rule "2.IH"(2) [OF False True empty])
      qed
    next
      case nb: False
      have "scan_lines cur (c # cs) = scan_lines (cur @ [c]) cs"
        by (simp only: scan_lines.simps False nb if_False)
      with "2.prems"(2) have m: "l \<in> set (scan_lines (cur @ [c]) cs)" by simp
      from nb "2.prems"(1) have "\<forall>ch \<in> set (cur @ [c]). \<not> is_linebreak ch" by simp
      from "2.IH"(3) [OF False nb this m] show ?thesis .
    qed
  qed
qed

lemma splitlines_no_breaks: "l \<in> set (splitlines s) \<Longrightarrow> \<forall>ch \<in> set l. \<not> is_linebreak ch"
  unfolding splitlines_def using scan_lines_no_breaks [of "[]" l s] by simp

lemma remove_loop_keep:
  "\<forall>l \<in> set ls. \<not> is_marker l \<Longrightarrow> remove_loop ls False acc = acc @ unlines ls"
  by (induction ls arbitrary: acc) (simp_all add: unlines_simps)

lemma remove_loop_append_keep:
  "\<forall>l \<in> set pre. \<not> is_marker l \<Longrightarrow>
   remove_loop (pre @ rest) False acc = remove_loop rest False (acc @ unlines pre)"
  by (induction pre arbitrary: acc) (simp_all add: unlines_simps)

lemma remove_loop_block:
  "is_marker m \<Longrightarrow> \<not> is_marker j \<Longrightarrow>
   remove_loop (m # j # post) False acc = remove_loop post False acc"
  by simp


lemma rstrip_newline: "rstrip (x @ ''\<newline>'') = rstrip x"
  by (simp add: rstrip_def is_space_def)

lemma rstrip_idem: "rstrip (rstrip x) = rstrip x"
proof -
  have "dropWhile is_space (dropWhile is_space ys) = dropWhile is_space ys" for ys
    by (induction ys) auto
  then show ?thesis by (simp add: rstrip_def)
qed

lemma rstrip_append:
  "rstrip (x @ l) = (if rstrip l = [] then rstrip x else x @ rstrip l)"
proof -
  have dw: "dropWhile is_space (ys @ zs)
      = (if dropWhile is_space ys = [] then dropWhile is_space zs
         else dropWhile is_space ys @ zs)" for ys zs :: string
    by (induction ys) simp_all
  show ?thesis
    unfolding rstrip_def rev_append dw [of "rev l" "rev x"] by simp
qed

lemma prefix_rstrip: "prefix (rstrip l) l"
proof -
  have "rev l = takeWhile is_space (rev l) @ dropWhile is_space (rev l)" by simp
  then have "rev (rev l) = rev (dropWhile is_space (rev l)) @ rev (takeWhile is_space (rev l))"
    by (metis rev_append)
  then have "l = rstrip l @ rev (takeWhile is_space (rev l))" by (simp add: rstrip_def)
  then show ?thesis by (metis prefixI)
qed

lemma rstrip_unlines_newline:
  "\<exists>K'. (rstrip (unlines K) @ ''\<newline>'') = unlines K'
     \<and> (\<forall>l' \<in> set K'. l' = [] \<or> (\<exists>l \<in> set K. prefix l' l))"
proof (induction K rule: rev_induct)
  case Nil
  have "(rstrip (unlines []) @ ''\<newline>'') = unlines [[]]"
    by (simp add: rstrip_def unlines_def)
  then show ?case by (intro exI [of _ "[[]]"]) simp
next
  case (snoc l K)
  have r: "rstrip (unlines (K @ [l])) = rstrip (unlines K @ l)"
    using rstrip_newline [of "unlines K @ l"] by (simp add: unlines_simps)
  show ?case
  proof (cases "rstrip l = []")
    case True
    then have "rstrip (unlines (K @ [l])) = rstrip (unlines K)"
      unfolding r by (simp add: rstrip_append [of "unlines K" l])
    with snoc obtain K' where "(rstrip (unlines (K @ [l])) @ ''\<newline>'') = unlines K'"
      and "\<forall>l' \<in> set K'. l' = [] \<or> (\<exists>x \<in> set K. prefix l' x)" by auto
    then have "(rstrip (unlines (K @ [l])) @ ''\<newline>'') = unlines K'
      \<and> (\<forall>l' \<in> set K'. l' = [] \<or> (\<exists>x \<in> set (K @ [l]). prefix l' x))" by auto
    then show ?thesis by (rule exI)
  next
    case False
    then have "rstrip (unlines (K @ [l])) = unlines K @ rstrip l"
      unfolding r by (simp add: rstrip_append [of "unlines K" l])
    then have "(rstrip (unlines (K @ [l])) @ ''\<newline>'') = unlines (K @ [rstrip l])"
      by (simp add: unlines_simps)
    moreover have "\<forall>l' \<in> set (K @ [rstrip l]). l' = [] \<or> (\<exists>x \<in> set (K @ [l]). prefix l' x)"
      using prefix_rstrip [of l] by auto
    ultimately have "(rstrip (unlines (K @ [l])) @ ''\<newline>'') = unlines (K @ [rstrip l])
      \<and> (\<forall>l' \<in> set (K @ [rstrip l]). l' = [] \<or> (\<exists>x \<in> set (K @ [l]). prefix l' x))" by simp
    then show ?thesis by (rule exI)
  qed
qed

lemma remove_schedule_fixed:
  assumes "\<forall>l \<in> set K. (\<forall>ch \<in> set l. \<not> is_linebreak ch) \<and> \<not> is_marker l"
  shows "remove_schedule (rstrip (unlines K) @ ''\<newline>'') 0
     = Inr (update_command (rstrip (unlines K)))"
proof -
  from rstrip_unlines_newline [of K] obtain K'
    where eq: "rstrip (unlines K) @ ''\<newline>'' = unlines K'"
      and pre: "\<forall>l' \<in> set K'. l' = [] \<or> (\<exists>l \<in> set K. prefix l' l)" by blast
  have nb: "\<forall>l' \<in> set K'. \<forall>ch \<in> set l'. \<not> is_linebreak ch"
  proof
    fix l' assume "l' \<in> set K'"
    with pre have "l' = [] \<or> (\<exists>l \<in> set K. prefix l' l)" by blast
    then show "\<forall>ch \<in> set l'. \<not> is_linebreak ch"
    proof
      assume "l' = []" then show ?thesis by simp
    next
      assume "\<exists>l \<in> set K. prefix l' l"
      then obtain l where "l \<in> set K" and "prefix l' l" by blast
      with assms show ?thesis by (auto dest: set_mono_prefix)
    qed
  qed
  have nm: "\<forall>l' \<in> set K'. \<not> is_marker l'"
  proof
    fix l' assume "l' \<in> set K'"
    with pre have "l' = [] \<or> (\<exists>l \<in> set K. prefix l' l)" by blast
    then show "\<not> is_marker l'"
    proof
      assume "l' = []" then show ?thesis by (simp add: not_marker_empty)
    next
      assume "\<exists>l \<in> set K. prefix l' l"
      then obtain l where "l \<in> set K" and "prefix l' l" by blast
      with assms show ?thesis by (auto dest: is_marker_prefix)
    qed
  qed
  have "rstrip (unlines K') = rstrip (unlines K)"
    using rstrip_newline [of "rstrip (unlines K)"] by (simp add: eq [symmetric] rstrip_idem)
  then show ?thesis
    by (simp add: remove_schedule_def eq splitlines_unlines [OF nb] remove_loop_keep [OF nm])
qed









text \<open>
  Claim C1, as amended. Let the lines of the crontab, as \<^verbatim>\<open>splitlines\<close> gives them, be
  \<open>pre\<close>, then either nothing or one marker line followed by one line that is no marker
  line, then \<open>post\<close>, with no marker line in \<open>pre\<close> and \<open>post\<close>. Let the text written back,
  which is the lines \<open>pre\<close> and \<open>post\<close> in order and one per line with the whitespace at
  its end stripped (blank lines and the spaces ending the last line included), hold no
  character that the shell interprets inside double quotes and be no option word of echo.
  Then \<^verbatim>\<open>remove_schedule\<close> sends that text, the crontab of the host becomes that text
  and one newline, and \<^verbatim>\<open>remove_schedule\<close> on this crontab sends the same text again.
\<close>

theorem remove_schedule_removes_block:
  assumes "splitlines c = pre @ block @ post"
    and "block = [] \<or> (\<exists>m j. block = [m, j] \<and> is_marker m \<and> \<not> is_marker j)"
    and "\<forall>l \<in> set (pre @ post). \<not> is_marker l"
    and "shell_verbatim (rstrip (unlines (pre @ post)))"
  shows "remove_schedule c 0 = Inr (update_command (rstrip (unlines (pre @ post))))
     \<and> installed_crontab (rstrip (unlines (pre @ post)))
       = Some (rstrip (unlines (pre @ post)) @ ''\<newline>'')
     \<and> remove_schedule (rstrip (unlines (pre @ post)) @ ''\<newline>'') 0
       = Inr (update_command (rstrip (unlines (pre @ post))))"
proof -
  from assms(3) have pre: "\<forall>l \<in> set pre. \<not> is_marker l" and post: "\<forall>l \<in> set post. \<not> is_marker l"
    by auto
  have "remove_loop (block @ post) False acc = acc @ unlines post" for acc
    using assms(2) post by (auto simp add: remove_loop_keep)
  then have "remove_loop (pre @ block @ post) False [] = unlines (pre @ post)"
    by (simp add: remove_loop_append_keep [OF pre] unlines_simps)
  then have first: "remove_schedule c 0 = Inr (update_command (rstrip (unlines (pre @ post))))"
    by (simp add: remove_schedule_def assms(1))
  have host: "installed_crontab (rstrip (unlines (pre @ post)))
      = Some (rstrip (unlines (pre @ post)) @ ''\<newline>'')"
    using assms(4) by (simp add: installed_crontab_def)
  have "\<forall>l \<in> set (pre @ post). (\<forall>ch \<in> set l. \<not> is_linebreak ch) \<and> \<not> is_marker l"
  proof
    fix l assume l: "l \<in> set (pre @ post)"
    then have "l \<in> set (splitlines c)" by (auto simp add: assms(1))
    from splitlines_no_breaks [OF this] assms(3) l
    show "(\<forall>ch \<in> set l. \<not> is_linebreak ch) \<and> \<not> is_marker l" by blast
  qed
  from remove_schedule_fixed [OF this] first host show ?thesis by blast
qed

theorem remove_schedule_removes_block_witness:
  "remove_schedule
     (''MAILTO=ops\<newline>''
      @ ''# -- multi-restic -- (do not remove this comment!)\<newline>''
      @ ''0 2 * * * /opt/mr/backup.sh\<newline>''
      @ ''@daily /bin/true\<newline>'') 0
   = Inr (update_command (''MAILTO=ops\<newline>'' @ ''@daily /bin/true''))
   \<and> installed_crontab (''MAILTO=ops\<newline>'' @ ''@daily /bin/true'')
     = Some (''MAILTO=ops\<newline>'' @ ''@daily /bin/true\<newline>'')
   \<and> remove_schedule (''MAILTO=ops\<newline>'' @ ''@daily /bin/true\<newline>'') 0
     = Inr (update_command (''MAILTO=ops\<newline>'' @ ''@daily /bin/true''))"
  using remove_schedule_removes_block
    [of "''MAILTO=ops\<newline>''
      @ ''# -- multi-restic -- (do not remove this comment!)\<newline>''
      @ ''0 2 * * * /opt/mr/backup.sh\<newline>''
      @ ''@daily /bin/true\<newline>''"
      "[''MAILTO=ops'']"
      "[''# -- multi-restic -- (do not remove this comment!)'', ''0 2 * * * /opt/mr/backup.sh'']"
      "[''@daily /bin/true'']"]
  by (simp add: splitlines_def is_linebreak_def is_marker_def strip_def lstrip_def rstrip_def
      is_space_def unlines_def shell_verbatim_def shell_special_def echo_option_def)

text \<open>
  Claim C1 as stated fails on a crontab with a blank line before the marker block, a text
  the shell takes as it stands: of its four lines three are removed, the blank line with
  the two lines of the block.
\<close>

theorem remove_schedule_blank_line_counterexample:
  "splitlines (''MAILTO=ops\<newline>''
      @ ''\<newline>''
      @ ''# -- multi-restic -- (do not remove this comment!)\<newline>''
      @ ''0 2 * * * /opt/mr/backup.sh\<newline>'')
    = [''MAILTO=ops'', [], ''# -- multi-restic -- (do not remove this comment!)'',
       ''0 2 * * * /opt/mr/backup.sh'']
  \<and> remove_schedule (''MAILTO=ops\<newline>''
      @ ''\<newline>''
      @ ''# -- multi-restic -- (do not remove this comment!)\<newline>''
      @ ''0 2 * * * /opt/mr/backup.sh\<newline>'') 0 = Inr (update_command ''MAILTO=ops'')
  \<and> installed_crontab ''MAILTO=ops'' = Some ''MAILTO=ops\<newline>''
  \<and> splitlines ''MAILTO=ops\<newline>'' = [''MAILTO=ops'']"
  by (simp add: remove_schedule_def splitlines_def is_linebreak_def is_marker_def strip_def
      lstrip_def rstrip_def is_space_def installed_crontab_def shell_verbatim_def
      shell_special_def echo_option_def)




section \<open>Properties of the Check workflow\<close>

text \<open>
  Claim C8. Let the session of an agent be open, let the checks before the backup root run
  on with the events \<open>evs\<close>, and let \<^verbatim>\<open>test -e\<close> on the backup root exit with a status
  other than 0. Then the workflow logs that the backup root does not exist and goes on
  with the next agent: it sends no command for an entry of \<^verbatim>\<open>to_backup\<close>, logs no
  result for one, and logs no exception.
\<close>

theorem check_skips_paths_without_backup_root:
  assumes "connect_ssh agent_name agent_data = Some client"
    and "check_head client agent_name agent_data 0 = (evs, Proceed)"
    and "client (execs evs) (''test -e '' @ fmt (backup_root agent_data)) = Some (exit_code, out)"
    and "exit_code \<noteq> 0"
  shows "check connect_ssh ((agent_name, agent_data) # others)
     = CheckingAgents # evs
       @ [Exec (''test -e '' @ fmt (backup_root agent_data)),
          BackupRootMissing (fmt (backup_root agent_data))]
       @ check_agents connect_ssh others"
  using assms
  by (simp add: check_def check_agent_def check_session_def andthen_def check_backup_root_def
      probe_def say_def)

theorem check_skips_paths_without_backup_root_witness:
  "check (\<lambda>agent_name agent_data. Some (\<lambda>n cmd.
            if cmd = ''test -e /srv'' then Some (1, []) else Some (0, ''restic 0.18.1\<newline>'')))
     [(''a1'', \<lparr>install_location = None, backup_root = Some ''/srv'',
               to_backup = Some [''data'', ''etc''], repositories = None,
               pre_command = None, post_command = None\<rparr>),
      (''a2'', \<lparr>install_location = None, backup_root = Some ''/home'',
               to_backup = Some [''data''], repositories = None,
               pre_command = None, post_command = None\<rparr>)]
   = [CheckingAgents,
      Connected ''a1'',
      Exec ''ls /opt/multi-restic/backup.sh'', AlreadyInstalled,
      Exec ''crontab -l'', CrontabAvailable,
      Exec ''/opt/multi-restic/restic version'', ResticInPath ''restic 0.18.1'',
      Exec ''test -e /srv'', BackupRootMissing ''/srv'',
      Connected ''a2'',
      Exec ''ls /opt/multi-restic/backup.sh'', AlreadyInstalled,
      Exec ''crontab -l'', CrontabAvailable,
      Exec ''/opt/multi-restic/restic version'', ResticInPath ''restic 0.18.1'',
      Exec ''test -e /home'', BackupRootExists ''/home'',
      Exec ''test -e /home/data'', PathExists ''/home/data'']"
  using check_skips_paths_without_backup_root
    [of "\<lambda>agent_name agent_data. Some (\<lambda>n cmd.
            if cmd = ''test -e /srv'' then Some (1, []) else Some (0, ''restic 0.18.1\<newline>''))"
        "''a1''"
        "\<lparr>install_location = None, backup_root = Some ''/srv'',
               to_backup = Some [''data'', ''etc''], repositories = None,
               pre_command = None, post_command = None\<rparr>"
        "\<lambda>n cmd. if cmd = ''test -e /srv'' then Some (1, []) else Some (0, ''restic 0.18.1\<newline>'')"
        "[Connected ''a1'',
          Exec ''ls /opt/multi-restic/backup.sh'', AlreadyInstalled,
          Exec ''crontab -l'', CrontabAvailable,
          Exec ''/opt/multi-restic/restic version'', ResticInPath ''restic 0.18.1'']"
        1 "[]"
        "[(''a2'', \<lparr>install_location = None, backup_root = Some ''/home'',
               to_backup = Some [''data''], repositories = None,
               pre_command = None, post_command = None\<rparr>)]"]
  by (simp add: check_agent_def check_session_def check_head_def andthen_def
      check_installed_def check_crontab_def check_restic_def check_backup_root_def
      probe_def say_def execs_def get_install_location_def get_default_def fmt_def
      strip_def lstrip_def rstrip_def is_space_def)

text \<open>
  Claim C3 does not hold of the code. On a host where \<^verbatim>\<open>restic version\<close> succeeds (the
  tool is on the search path) and \<^verbatim>\<open>/opt/multi-restic/restic version\<close> fails, the restic
  check sends the second command twice, never the first, and reports the tool unavailable.
\<close>

theorem check_restic_search_path_not_probed:
  "check_restic
     (\<lambda>n cmd. if cmd = ''restic version'' then Some (0, ''restic 0.18.1\<newline>'')
               else if cmd = ''/opt/multi-restic/restic version'' then Some (127, [])
               else Some (0, []))
     ''/opt/multi-restic'' 3
   = ([Exec ''/opt/multi-restic/restic version'',
       Exec ''/opt/multi-restic/restic version'',
       ResticUnavailable ''/opt/multi-restic''], Proceed)"
  by (simp add: check_restic_def probe_def say_def)

end
